theory Spec2Isabelle
  imports Complex_Main "HOL-Library.Multiset"
begin

section \<open>Data model: data frames, cells, the library boundary\<close>

text \<open>
  The imputation engine lives in the notebook cell that defines \<^verbatim>\<open>KNN_predict\<close> and
  \<^verbatim>\<open>KNN_fill\<close>, followed by the rounding cell. A pandas data frame is a table with
  named columns, a dtype per column and a row index. A cell is a float or NaN; NaN
  (the missing marker) is \<open>None\<close>. Arithmetic on cells is exact (reals), so rounding
  errors of float64 are not part of the model.
\<close>

datatype error = KeyError | IndexError | ValueError

datatype dtype = Float64 | Int64

type_synonym cell = "real option"

type_synonym row = "string \<Rightarrow> cell"

record frame =
  columns :: "string list"
  dtypes :: "string \<Rightarrow> dtype"
  rows :: "(int \<times> row) list"

text \<open>
  The scikit-learn estimators and the pandas random generator are not code of the
  repository; they are parameters of the model. An estimator takes \<open>n_neighbors\<close>, the
  training features, the training targets and the query features, and returns one
  prediction per query row or raises. \<open>sample\<close> is \<^verbatim>\<open>df.sample(frac=1)\<close>: from the state of
  the generator and the number of rows it returns the drawn order of row positions and the
  next state of the generator.
\<close>

type_synonym estimator =
  "nat \<Rightarrow> cell list list \<Rightarrow> cell list \<Rightarrow> cell list list \<Rightarrow> error + cell list"

record 'g library =
  KNN :: estimator
  KNNc :: estimator
  sample :: "'g \<Rightarrow> nat \<Rightarrow> nat list \<times> 'g"

section \<open>The pandas and numpy operations the engine uses\<close>

text \<open>\<^verbatim>\<open>pd.isnull(df).any(axis=1)\<close>: the row has a missing value in some column of the frame.\<close>

definition isnull_any :: "frame \<Rightarrow> row \<Rightarrow> bool" where
  "isnull_any df r = list_ex (\<lambda>c. r c = None) (columns df)"

text \<open>\<^verbatim>\<open>df[mask]\<close>: the rows selected by a boolean mask, index labels kept.\<close>

definition select_rows :: "(row \<Rightarrow> bool) \<Rightarrow> frame \<Rightarrow> frame" where
  "select_rows P df = df\<lparr>rows := filter (\<lambda>(i, r). P r) (rows df)\<rparr>"

text \<open>\<^verbatim>\<open>df[c]\<close> (the values of a column) and \<^verbatim>\<open>df.index\<close>.\<close>

definition column :: "frame \<Rightarrow> string \<Rightarrow> cell list" where
  "column df c = map (\<lambda>(i, r). r c) (rows df)"

definition index :: "frame \<Rightarrow> int list" where
  "index df = map fst (rows df)"

text \<open>\<^verbatim>\<open>df.drop(c, axis=1)\<close> as the feature matrix handed to an estimator.\<close>

definition drop_column :: "frame \<Rightarrow> string \<Rightarrow> cell list list" where
  "drop_column df c = map (\<lambda>(i, r). map r (filter (\<lambda>d. d \<noteq> c) (columns df))) (rows df)"

text \<open>
  \<^verbatim>\<open>df[c] = values\<close> with an array: every row of the column is overwritten; pandas raises
  ValueError when the lengths differ. The estimators return the dtype of their training
  target, so the dtype of the column stays.
\<close>

definition set_column :: "frame \<Rightarrow> string \<Rightarrow> cell list \<Rightarrow> error + frame" where
  "set_column df c vs =
     (if length vs \<noteq> length (rows df) then Inl ValueError
      else Inr (df\<lparr>columns := (if c \<in> set (columns df) then columns df else columns df @ [c]),
                   rows := map2 (\<lambda>(i, r) v. (i, r(c := v))) (rows df) vs\<rparr>))"

text \<open>
  The observed values of a column (\<^verbatim>\<open>dropna\<close>). \<^verbatim>\<open>Series.median()\<close> skips NaN; it is NaN
  when nothing is observed.
\<close>

fun observed :: "cell list \<Rightarrow> real list" where
  "observed [] = []"
| "observed (None # vs) = observed vs"
| "observed (Some x # vs) = x # observed vs"

definition median :: "cell list \<Rightarrow> cell" where
  "median vs =
     (let ys = sort (observed vs); n = length ys
      in if n = 0 then None
         else if odd n then Some (ys ! (n div 2))
         else Some ((ys ! (n div 2 - 1) + ys ! (n div 2)) / 2))"

text \<open>
  \<^verbatim>\<open>temp_df[c].fillna(v, inplace=True)\<close>: the missing entries of column \<open>c\<close> become \<open>v\<close>;
  filling with NaN changes nothing. (The in-place fill through \<^verbatim>\<open>temp_df[c]\<close> writes into
  \<open>temp_df\<close> in the pandas of the notebook.) \<open>fillna_values\<close> is the same fill on the
  values of one column.
\<close>

definition fillna_values :: "cell \<Rightarrow> cell list \<Rightarrow> cell list" where
  "fillna_values v vs = map (\<lambda>x. case x of None \<Rightarrow> v | Some y \<Rightarrow> Some y) vs"

definition fillna :: "frame \<Rightarrow> string \<Rightarrow> cell \<Rightarrow> frame" where
  "fillna df c v =
     df\<lparr>rows := map (\<lambda>(i, r). (i, r(c := (case r c of None \<Rightarrow> v | Some x \<Rightarrow> Some x)))) (rows df)\<rparr>"

text \<open>\<^verbatim>\<open>df.iloc[positions]\<close>: rows by position; a position out of range raises IndexError.\<close>

definition iloc :: "frame \<Rightarrow> nat list \<Rightarrow> error + frame" where
  "iloc df ps =
     (if list_all (\<lambda>j. j < length (rows df)) ps
      then Inr (df\<lparr>rows := map (\<lambda>j. rows df ! j) ps\<rparr>)
      else Inl IndexError)"

text \<open>\<^verbatim>\<open>df.iloc[:n, :]\<close> and \<^verbatim>\<open>df.iloc[n:, :]\<close>.\<close>

definition iloc_upto :: "nat \<Rightarrow> frame \<Rightarrow> frame" where
  "iloc_upto n df = df\<lparr>rows := take n (rows df)\<rparr>"

definition iloc_from :: "nat \<Rightarrow> frame \<Rightarrow> frame" where
  "iloc_from n df = df\<lparr>rows := drop n (rows df)\<rparr>"

text \<open>
  \<^verbatim>\<open>pd.concat([a, b])\<close> on frames with the same columns, and \<^verbatim>\<open>df.sort_index()\<close>: the rows
  in increasing order of their index label (rows with the same label keep their order here;
  pandas fixes the order only between different labels).
\<close>

definition concat_frames :: "frame \<Rightarrow> frame \<Rightarrow> frame" where
  "concat_frames a b = a\<lparr>rows := rows a @ rows b\<rparr>"

definition sort_index :: "frame \<Rightarrow> frame" where
  "sort_index df = df\<lparr>rows := sort_key fst (rows df)\<rparr>"

text \<open>\<^verbatim>\<open>Series.mean()\<close> skips NaN and is NaN on nothing.\<close>

definition mean_skipna :: "cell list \<Rightarrow> cell" where
  "mean_skipna vs =
     (let ys = observed vs
      in if ys = [] then None else Some (sum_list ys / real (length ys)))"

text \<open>\<^verbatim>\<open>((df_pred[column] - df_test[column])**2).mean()\<close>\<close>

definition squared_error :: "cell \<Rightarrow> cell \<Rightarrow> cell" where
  "squared_error p a =
     (case p of None \<Rightarrow> None
      | Some x \<Rightarrow> (case a of None \<Rightarrow> None | Some y \<Rightarrow> Some ((x - y) ^ 2)))"

definition mse :: "cell list \<Rightarrow> cell list \<Rightarrow> cell" where
  "mse pred actual = mean_skipna (map2 squared_error pred actual)"

text \<open>\<^verbatim>\<open>Metrics.accuracy_score(y_true, y_pred, normalize = True)\<close>\<close>

definition accuracy_score :: "cell list \<Rightarrow> cell list \<Rightarrow> cell" where
  "accuracy_score y_true y_pred =
     (if y_true = [] then None
      else Some (real (length (filter (\<lambda>(a, p). a = p) (zip y_true y_pred)))
                 / real (length y_true)))"

text \<open>
  \<^verbatim>\<open>np.argmin\<close> and \<^verbatim>\<open>np.argmax\<close>: the position of the first occurrence of the best value;
  a NaN counts as the best value, so the first NaN wins; an empty sequence raises.
\<close>

fun first_nan :: "cell list \<Rightarrow> nat option" where
  "first_nan [] = None"
| "first_nan (None # vs) = Some 0"
| "first_nan (Some x # vs) = map_option Suc (first_nan vs)"

fun first_best :: "(real \<Rightarrow> real \<Rightarrow> bool) \<Rightarrow> real list \<Rightarrow> nat" where
  "first_best better [] = 0"
| "first_best better [x] = 0"
| "first_best better (x # y # ys) =
     (let j = first_best better (y # ys)
      in if better ((y # ys) ! j) x then Suc j else 0)"

definition arg_best :: "(real \<Rightarrow> real \<Rightarrow> bool) \<Rightarrow> cell list \<Rightarrow> error + nat" where
  "arg_best better vs =
     (if vs = [] then Inl ValueError
      else case first_nan vs of
             Some i \<Rightarrow> Inr i
           | None \<Rightarrow> Inr (first_best better (observed vs)))"

definition argmin :: "cell list \<Rightarrow> error + nat" where
  "argmin vs = arg_best (\<lambda>a b. a < b) vs"

definition argmax :: "cell list \<Rightarrow> error + nat" where
  "argmax vs = arg_best (\<lambda>a b. a > b) vs"

text \<open>
  \<^verbatim>\<open>int(np.mean(best_ks))\<close> on positive integers: the float mean truncated, which is the
  integer quotient; on an empty list the mean is NaN and \<^verbatim>\<open>int\<close> raises.
\<close>

definition int_mean :: "nat list \<Rightarrow> error + nat" where
  "int_mean ks = (if ks = [] then Inl ValueError else Inr (sum_list ks div length ks))"

text \<open>\<^verbatim>\<open>Series.round()\<close>: to the nearest integer, halves to the even one; NaN stays NaN.\<close>

definition round_half_even :: "real \<Rightarrow> real" where
  "round_half_even x =
     (let f = \<lfloor>x\<rfloor>; d = x - of_int f
      in if d < 1 / 2 then of_int f
         else if 1 / 2 < d then of_int (f + 1)
         else if even f then of_int f else of_int (f + 1))"

definition round_column :: "frame \<Rightarrow> string \<Rightarrow> error + frame" where
  "round_column df c =
     (if c \<notin> set (columns df) then Inl KeyError
      else Inr (df\<lparr>rows := map (\<lambda>(i, r). (i, r(c := map_option round_half_even (r c)))) (rows df)\<rparr>))"

section \<open>The engine\<close>

text \<open>
  \<^verbatim>\<open>KNN_predict(df_missing, df_temp, df_filled, column_name, k)\<close>: fit on \<open>df_filled\<close>
  (regressor for a float64 target, classifier otherwise), predict on the features of
  \<open>df_temp\<close>, and assign the predictions to the whole column of a copy of \<open>df_missing\<close>.
  A column that the training frame or the feature frame does not have raises KeyError.
\<close>

definition KNN_predict ::
  "'g library \<Rightarrow> frame \<Rightarrow> frame \<Rightarrow> frame \<Rightarrow> string \<Rightarrow> nat \<Rightarrow> error + frame" where
  "KNN_predict L df_missing df_temp df_filled column_name k =
     (if column_name \<in> set (columns df_filled) \<and> column_name \<in> set (columns df_temp)
      then
        let y = column df_filled column_name;
            X_filled = drop_column df_filled column_name;
            X_missing = drop_column df_temp column_name;
            knn = (if dtypes df_filled column_name = Float64 then KNN L else KNNc L)
        in case knn k X_filled y X_missing of
             Inl e \<Rightarrow> Inl e
           | Inr predicted \<Rightarrow> set_column df_missing column_name predicted
      else Inl KeyError)"

text \<open>
  The placeholder loop of \<^verbatim>\<open>KNN_fill\<close>:
  \<^verbatim>\<open>for c in missing_columns: if c != column: temp_df[c].fillna(temp_df[c].median(), inplace = True)\<close>
\<close>

fun placeholder_fill :: "string list \<Rightarrow> string \<Rightarrow> frame \<Rightarrow> error + frame" where
  "placeholder_fill [] column_name temp_df = Inr temp_df"
| "placeholder_fill (c # cs) column_name temp_df =
     (if c \<noteq> column_name then
        (if c \<notin> set (columns temp_df) then Inl KeyError
         else placeholder_fill cs column_name (fillna temp_df c (median (column temp_df c))))
      else placeholder_fill cs column_name temp_df)"

text \<open>\<^verbatim>\<open>range(1, 15, 2)\<close>\<close>

definition grid :: "nat list" where
  "grid = [1, 3, 5, 7, 9, 11, 13]"

text \<open>
  The inner loop \<^verbatim>\<open>for k in range(1, 15, 2)\<close>: each candidate shuffles \<open>df_filled\<close>, splits
  it at \<open>test_ind\<close>, predicts the test rows from the training rows and appends its score
  to \<open>RSS\<close> (float64 target) or to \<open>scores\<close>.
\<close>

fun candidates ::
  "'g library \<Rightarrow> frame \<Rightarrow> frame \<Rightarrow> nat \<Rightarrow> string \<Rightarrow> nat list
     \<Rightarrow> cell list \<times> cell list \<times> 'g \<Rightarrow> error + (cell list \<times> cell list \<times> 'g)" where
  "candidates L df df_filled test_ind column_name [] acc = Inr acc"
| "candidates L df df_filled test_ind column_name (k # ks) (RSS, scores, g) =
     (case sample L g (length (rows df_filled)) of
        (perm, g') \<Rightarrow>
          (case iloc df_filled perm of
             Inl e \<Rightarrow> Inl e
           | Inr df_shuffled \<Rightarrow>
               let df_test = iloc_upto test_ind df_shuffled;
                   df_train = iloc_from test_ind df_shuffled
               in (case KNN_predict L df_test df_test df_train column_name k of
                     Inl e \<Rightarrow> Inl e
                   | Inr df_pred \<Rightarrow>
                       if dtypes df column_name = Float64
                       then candidates L df df_filled test_ind column_name ks
                              (RSS @ [mse (column df_pred column_name) (column df_test column_name)],
                               scores, g')
                       else candidates L df df_filled test_ind column_name ks
                              (RSS,
                               scores @ [accuracy_score (column df_test column_name)
                                                        (column df_pred column_name)],
                               g'))))"

text \<open>
  One pass of \<^verbatim>\<open>for k in range(10)\<close>: score the grid, then append
  \<^verbatim>\<open>np.argmin(RSS) + 1\<close> or \<^verbatim>\<open>np.argmax(scores) + 1\<close> to \<open>best_ks\<close>.
\<close>

definition repetition ::
  "'g library \<Rightarrow> frame \<Rightarrow> frame \<Rightarrow> nat \<Rightarrow> string \<Rightarrow> nat list \<times> 'g \<Rightarrow> error + (nat list \<times> 'g)" where
  "repetition L df df_filled test_ind column_name acc =
     (case acc of (best_ks, g) \<Rightarrow>
        (case candidates L df df_filled test_ind column_name grid ([], [], g) of
           Inl e \<Rightarrow> Inl e
         | Inr (RSS, scores, g') \<Rightarrow>
             (case (if dtypes df column_name = Float64 then argmin RSS else argmax scores) of
                Inl e \<Rightarrow> Inl e
              | Inr p \<Rightarrow> Inr (best_ks @ [p + 1], g'))))"

fun repetitions ::
  "'g library \<Rightarrow> frame \<Rightarrow> frame \<Rightarrow> nat \<Rightarrow> string \<Rightarrow> nat \<Rightarrow> nat list \<times> 'g
     \<Rightarrow> error + (nat list \<times> 'g)" where
  "repetitions L df df_filled test_ind column_name 0 acc = Inr acc"
| "repetitions L df df_filled test_ind column_name (Suc n) acc =
     (case repetition L df df_filled test_ind column_name acc of
        Inl e \<Rightarrow> Inl e
      | Inr acc' \<Rightarrow> repetitions L df df_filled test_ind column_name n acc')"

text \<open>
  The selector of one column: ten repetitions, then
  \<^verbatim>\<open>best_k = int(np.mean(best_ks))\<close>. The list \<open>best_ks\<close> is the one created before the
  loop over the columns; the selector appends to it.
\<close>

definition select_k ::
  "'g library \<Rightarrow> frame \<Rightarrow> frame \<Rightarrow> nat \<Rightarrow> string \<Rightarrow> nat list \<times> 'g
     \<Rightarrow> error + (nat \<times> nat list \<times> 'g)" where
  "select_k L df df_filled test_ind column_name acc =
     (case repetitions L df df_filled test_ind column_name 10 acc of
        Inl e \<Rightarrow> Inl e
      | Inr (best_ks, g) \<Rightarrow>
          (case int_mean best_ks of
             Inl e \<Rightarrow> Inl e
           | Inr best_k \<Rightarrow> Inr (best_k, best_ks, g)))"

text \<open>
  The loop \<^verbatim>\<open>for column in missing_columns\<close>. Its state is the missing-row frame
  \<open>df_missing\<close>, the list \<open>best_ks\<close> and the generator.
\<close>

fun column_loop ::
  "'g library \<Rightarrow> frame \<Rightarrow> frame \<Rightarrow> nat \<Rightarrow> string list \<Rightarrow> string list
     \<Rightarrow> frame \<times> nat list \<times> 'g \<Rightarrow> error + (frame \<times> nat list \<times> 'g)" where
  "column_loop L df df_filled test_ind missing_columns [] st = Inr st"
| "column_loop L df df_filled test_ind missing_columns (column_name # cs) (df_missing, best_ks, g) =
     (case placeholder_fill missing_columns column_name df_missing of
        Inl e \<Rightarrow> Inl e
      | Inr temp_df \<Rightarrow>
          (case select_k L df df_filled test_ind column_name (best_ks, g) of
             Inl e \<Rightarrow> Inl e
           | Inr (best_k, best_ks', g') \<Rightarrow>
               (case KNN_predict L df_missing temp_df df_filled column_name best_k of
                  Inl e \<Rightarrow> Inl e
                | Inr df_missing' \<Rightarrow>
                    column_loop L df df_filled test_ind missing_columns cs
                      (df_missing', best_ks', g'))))"

text \<open>
  The partition at the head of \<^verbatim>\<open>KNN_fill\<close>, and \<^verbatim>\<open>int(0.3 * len(df_filled.index))\<close>
  (the float product truncated is \<open>3 * n div 10\<close>).
\<close>

definition missing_subset :: "frame \<Rightarrow> frame" where
  "missing_subset df = select_rows (\<lambda>r. isnull_any df r) df"

definition filled_subset :: "frame \<Rightarrow> frame" where
  "filled_subset df = select_rows (\<lambda>r. \<not> isnull_any df r) df"

definition test_index :: "frame \<Rightarrow> nat" where
  "test_index df_filled = (3 * length (rows df_filled)) div 10"

definition KNN_fill :: "'g library \<Rightarrow> 'g \<Rightarrow> frame \<Rightarrow> string list \<Rightarrow> error + (frame \<times> 'g)" where
  "KNN_fill L g df missing_columns =
     (let df_missing = missing_subset df;
          df_filled = filled_subset df;
          test_ind = test_index df_filled
      in case column_loop L df df_filled test_ind missing_columns missing_columns
                (df_missing, [], g) of
           Inl e \<Rightarrow> Inl e
         | Inr (df_missing', best_ks, g') \<Rightarrow>
             Inr (sort_index (concat_frames df_filled df_missing'), g'))"

text \<open>
  The rounding cell: \<^verbatim>\<open>for c in missing_columns: listings_clean[c] = listings_clean[c].round()\<close>
\<close>

fun rounder :: "string list \<Rightarrow> frame \<Rightarrow> error + frame" where
  "rounder [] df = Inr df"
| "rounder (c # cs) df =
     (case round_column df c of Inl e \<Rightarrow> Inl e | Inr df' \<Rightarrow> rounder cs df')"

text \<open>
  The full run: \<^verbatim>\<open>listings_clean = KNN_fill(listings, missing_columns)\<close>, then the rounding
  cell. (Between the two the notebook joins the price column back on; it is not a column
  of the frame that is imputed.)
\<close>

definition impute :: "'g library \<Rightarrow> 'g \<Rightarrow> frame \<Rightarrow> string list \<Rightarrow> error + (frame \<times> 'g)" where
  "impute L g df missing_columns =
     (case KNN_fill L g df missing_columns of
        Inl e \<Rightarrow> Inl e
      | Inr (df_final, g') \<Rightarrow>
          (case rounder missing_columns df_final of
             Inl e \<Rightarrow> Inl e
           | Inr listings_clean \<Rightarrow> Inr (listings_clean, g')))"

section \<open>Notions used to state the properties\<close>



section \<open>A concrete library and a concrete dataset\<close>

text \<open>
  To run the engine on a dataset the parameters need values. \<open>knn_regressor\<close> is
  \<^verbatim>\<open>KNeighborsRegressor\<close> with its defaults (uniform weights, Euclidean distance): the mean
  target of the \<open>k\<close> nearest training rows. It raises ValueError, as scikit-learn does, on
  NaN in its inputs, on no query row, on \<open>k = 0\<close> and on \<open>k\<close> above the number of training
  rows. Training rows at equal distance are taken in training order; the datasets below have
  no such ties among the rows that decide a prediction. \<open>knn_classifier\<close> is
  \<^verbatim>\<open>KNeighborsClassifier\<close>: the most frequent target among the nearest rows, the smallest
  one when several are as frequent.
\<close>

definition sq_dist :: "real list \<Rightarrow> real list \<Rightarrow> real" where
  "sq_dist u v = sum_list (map2 (\<lambda>x y. (x - y) ^ 2) u v)"

definition nearest :: "nat \<Rightarrow> (real list \<times> real) list \<Rightarrow> real list \<Rightarrow> real list" where
  "nearest k train q = map snd (take k (sort_key fst (map (\<lambda>(x, t). (sq_dist x q, t)) train)))"

definition notnull :: "cell \<Rightarrow> bool" where
  "notnull v = (case v of None \<Rightarrow> False | Some x \<Rightarrow> True)"

definition accepts :: "nat \<Rightarrow> cell list list \<Rightarrow> cell list \<Rightarrow> cell list list \<Rightarrow> bool" where
  "accepts k X y Q \<longleftrightarrow>
     0 < k \<and> k \<le> length X \<and> length X = length y \<and> Q \<noteq> []
     \<and> list_all (list_all notnull) X \<and> list_all notnull y \<and> list_all (list_all notnull) Q"

definition knn_regressor :: estimator where
  "knn_regressor k X y Q =
     (if accepts k X y Q
      then Inr (map (\<lambda>q. let ts = nearest k (zip (map observed X) (observed y)) (observed q)
                          in Some (sum_list ts / real (length ts))) Q)
      else Inl ValueError)"

definition vote :: "real list \<Rightarrow> real" where
  "vote ts = fst (hd (sort_key (\<lambda>(v, n). - int n)
                        (map (\<lambda>v. (v, count_list ts v)) (sort (remdups ts)))))"

definition knn_classifier :: estimator where
  "knn_classifier k X y Q =
     (if accepts k X y Q
      then Inr (map (\<lambda>q. Some (vote (nearest k (zip (map observed X) (observed y)) (observed q)))) Q)
      else Inl ValueError)"

text \<open>
  The generator of the examples is a tape: its state is the list of the orders it will draw
  next, and once the tape is used up every draw leaves the rows in their order.
\<close>

definition tape_sample :: "nat list list \<Rightarrow> nat \<Rightarrow> nat list \<times> nat list list" where
  "tape_sample g n = (case g of [] \<Rightarrow> ([0..<n], []) | p # ps \<Rightarrow> (p, ps))"

definition ex_lib :: "nat list list library" where
  "ex_lib = \<lparr>KNN = knn_regressor, KNNc = knn_classifier, sample = tape_sample\<rparr>"

text \<open>
  The dataset: columns \<open>a\<close>, \<open>b\<close>, \<open>c\<close>, all float64; MissingSet is \<open>[a, b]\<close>. Row 2 misses
  \<open>a\<close> and has \<open>b = 3\<close>, row 7 misses \<open>b\<close> and has \<open>a = 5\<close>; the other eighteen rows are
  complete, with \<open>b = 1\<close>.
\<close>

definition mk_row :: "cell \<Rightarrow> cell \<Rightarrow> cell \<Rightarrow> row" where
  "mk_row a b c =
     (\<lambda>n. if n = ''a'' then a else if n = ''b'' then b else if n = ''c'' then c else None)"

definition ex_rows :: "(int \<times> row) list" where
  "ex_rows =
    [(0, mk_row (Some 0) (Some 1) (Some 100)),
     (1, mk_row (Some 0) (Some 1) (Some 200)),
     (2, mk_row None (Some 3) (Some 640)),
     (3, mk_row (Some 0) (Some 1) (Some 300)),
     (4, mk_row (Some 0) (Some 1) (Some 400)),
     (5, mk_row (Some 0) (Some 1) (Some 500)),
     (6, mk_row (Some 1) (Some 1) (Some 600)),
     (7, mk_row (Some 5) None (Some 660)),
     (8, mk_row (Some 0) (Some 1) (Some 700)),
     (9, mk_row (Some 0) (Some 1) (Some 800)),
     (10, mk_row (Some 0) (Some 1) (Some 900)),
     (11, mk_row (Some 0) (Some 1) (Some 1000)),
     (12, mk_row (Some 0) (Some 1) (Some 1100)),
     (13, mk_row (Some 0) (Some 1) (Some 1200)),
     (14, mk_row (Some 0) (Some 1) (Some 1300)),
     (15, mk_row (Some 10) (Some 1) (Some 1400)),
     (16, mk_row (Some 10) (Some 1) (Some 1500)),
     (17, mk_row (Some 10) (Some 1) (Some 1600)),
     (18, mk_row (Some 10) (Some 1) (Some 1700)),
     (19, mk_row (Some 10) (Some 1) (Some 1800))]"

definition ex_df :: frame where
  "ex_df = \<lparr>columns = [''a'', ''b'', ''c''], dtypes = (\<lambda>c. Float64), rows = ex_rows\<rparr>"

text \<open>The fully-observed rows of \<open>ex_df\<close> and its rows with a missing value.\<close>

definition ex_filled :: frame where
  "ex_filled = \<lparr>columns = [''a'', ''b'', ''c''], dtypes = (\<lambda>c. Float64),
     rows =
      [(0, mk_row (Some 0) (Some 1) (Some 100)),
       (1, mk_row (Some 0) (Some 1) (Some 200)),
       (3, mk_row (Some 0) (Some 1) (Some 300)),
       (4, mk_row (Some 0) (Some 1) (Some 400)),
       (5, mk_row (Some 0) (Some 1) (Some 500)),
       (6, mk_row (Some 1) (Some 1) (Some 600)),
       (8, mk_row (Some 0) (Some 1) (Some 700)),
       (9, mk_row (Some 0) (Some 1) (Some 800)),
       (10, mk_row (Some 0) (Some 1) (Some 900)),
       (11, mk_row (Some 0) (Some 1) (Some 1000)),
       (12, mk_row (Some 0) (Some 1) (Some 1100)),
       (13, mk_row (Some 0) (Some 1) (Some 1200)),
       (14, mk_row (Some 0) (Some 1) (Some 1300)),
       (15, mk_row (Some 10) (Some 1) (Some 1400)),
       (16, mk_row (Some 10) (Some 1) (Some 1500)),
       (17, mk_row (Some 10) (Some 1) (Some 1600)),
       (18, mk_row (Some 10) (Some 1) (Some 1700)),
       (19, mk_row (Some 10) (Some 1) (Some 1800))]\<rparr>"

definition ex_missing :: frame where
  "ex_missing = \<lparr>columns = [''a'', ''b'', ''c''], dtypes = (\<lambda>c. Float64),
     rows = [(2, mk_row None (Some 3) (Some 640)), (7, mk_row (Some 5) None (Some 660))]\<rparr>"

text \<open>
  The frames the run on \<open>ex_df\<close> goes through: the placeholder-filled copy for target \<open>a\<close>,
  the missing-row frame after column \<open>a\<close> and after column \<open>b\<close>, the result of \<^verbatim>\<open>KNN_fill\<close>
  and the rounded result.
\<close>

definition ex_temp_a :: frame where
  "ex_temp_a = ex_missing\<lparr>rows := [(2, mk_row None (Some 3) (Some 640)),
                                   (7, mk_row (Some 5) (Some 3) (Some 660))]\<rparr>"

definition ex_missing_a :: frame where
  "ex_missing_a = ex_missing\<lparr>rows := [(2, mk_row (Some (1 / 4)) (Some 3) (Some 640)),
                                      (7, mk_row (Some (1 / 4)) None (Some 660))]\<rparr>"

definition ex_missing_b :: frame where
  "ex_missing_b = ex_missing\<lparr>rows := [(2, mk_row (Some (1 / 4)) (Some 1) (Some 640)),
                                      (7, mk_row (Some (1 / 4)) (Some 1) (Some 660))]\<rparr>"

definition ex_final :: frame where
  "ex_final = ex_df\<lparr>rows := ex_rows[2 := (2, mk_row (Some (1 / 4)) (Some 1) (Some 640)),
                                      7 := (7, mk_row (Some (1 / 4)) (Some 1) (Some 660))]\<rparr>"

definition ex_clean :: frame where
  "ex_clean = ex_df\<lparr>rows := ex_rows[2 := (2, mk_row (Some 0) (Some 1) (Some 640)),
                                      7 := (7, mk_row (Some 0) (Some 1) (Some 660))]\<rparr>"

text \<open>
  Two tapes for one repetition of the selector (seven draws): on \<open>tape_same\<close> every draw
  leaves the eighteen fully-observed rows in their order; on \<open>tape_alternating\<close> the first
  draw is the same and every second draw reverses them.
\<close>

definition forward :: "nat list" where
  "forward = [0, 1, 2, 3, 4, 5, 6, 7, 8, 9, 10, 11, 12, 13, 14, 15, 16, 17]"

definition backward :: "nat list" where
  "backward = [17, 16, 15, 14, 13, 12, 11, 10, 9, 8, 7, 6, 5, 4, 3, 2, 1, 0]"

definition tape_same :: "nat list list" where
  "tape_same = [forward, forward, forward, forward, forward, forward, forward]"

definition tape_alternating :: "nat list list" where
  "tape_alternating = [forward, backward, forward, backward, forward, backward, forward]"

text \<open>
  A one-row dataset whose only missing value is in \<open>c\<close>, a column outside the MissingSet
  \<open>[a, b]\<close>.
\<close>

definition outside_df :: frame where
  "outside_df = \<lparr>columns = [''a'', ''b'', ''c''], dtypes = (\<lambda>c. Float64),
     rows = [(0, mk_row (Some 1) (Some 2) None)]\<rparr>"

text \<open>
  Two datasets with the rows of \<open>ex_df\<close> in another order, so that the index labels do not
  increase along the rows: in \<open>swap_df\<close> the rows labelled 2 and 7 (the two rows with a missing
  value) have changed places, in \<open>rev_df\<close> all rows are in reverse order.
\<close>

definition swap_df :: frame where
  "swap_df = ex_df\<lparr>rows := ex_rows[2 := ex_rows ! 7, 7 := ex_rows ! 2]\<rparr>"

definition rev_df :: frame where
  "rev_df = ex_df\<lparr>rows := rev ex_rows\<rparr>"

section \<open>Facts about the operations\<close>

subsection \<open>Row selection and placeholder filling\<close>

lemma rows_select_rows [simp]: "rows (select_rows P df) = filter (\<lambda>(i, r). P r) (rows df)"
  and columns_select_rows [simp]: "columns (select_rows P df) = columns df"
  and dtypes_select_rows [simp]: "dtypes (select_rows P df) = dtypes df"
  by (simp_all add: select_rows_def)

lemma fillna_simps [simp]:
  "columns (fillna df c v) = columns df"
  "dtypes (fillna df c v) = dtypes df"
  "index (fillna df c v) = index df"
  by (simp_all add: fillna_def index_def comp_def case_prod_unfold)

lemma column_fillna:
  "column (fillna df c v) d = (if d = c then fillna_values v (column df c) else column df d)"
  by (simp add: fillna_def fillna_values_def column_def comp_def case_prod_unfold)

lemma fillna_values_None: "fillna_values None vs = vs"
  unfolding fillna_values_def by (induction vs) (auto split: option.splits)

lemma fillna_values_twice: "fillna_values w (fillna_values (Some m) vs) = fillna_values (Some m) vs"
  unfolding fillna_values_def by (induction vs) (auto split: option.splits)

lemma fillna_values_median_twice:
  "fillna_values (median (fillna_values (median vs) vs)) (fillna_values (median vs) vs)
     = fillna_values (median vs) vs"
proof (cases "median vs")
  case None
  show ?thesis by (simp add: None fillna_values_None)
next
  case (Some m)
  show ?thesis unfolding Some by (rule fillna_values_twice)
qed

lemma placeholder_fill_columns:
  "placeholder_fill cs t df = Inr temp \<Longrightarrow>
     columns temp = columns df \<and> dtypes temp = dtypes df \<and> index temp = index df"
  by (induction cs t df rule: placeholder_fill.induct) (auto split: if_splits)

lemma placeholder_fill_column:
  "placeholder_fill cs t df = Inr temp \<Longrightarrow>
     column temp d =
       (if d \<in> set cs \<and> d \<noteq> t
        then fillna_values (median (column df d)) (column df d)
        else column df d)"
proof (induction cs t df rule: placeholder_fill.induct)
  case (1 t df)
  then show ?case by simp
next
  case (2 c cs t df)
  show ?case
  proof (cases "c = t")
    case True
    with 2 show ?thesis by auto
  next
    case False
    with "2.prems" have inC: "c \<in> set (columns df)"
      and run: "placeholder_fill cs t (fillna df c (median (column df c))) = Inr temp"
      by (auto split: if_splits)
    from "2.IH"(1) [OF False _ run] inC
    have IH: "column temp d =
       (if d \<in> set cs \<and> d \<noteq> t
        then fillna_values (median (column (fillna df c (median (column df c))) d))
               (column (fillna df c (median (column df c))) d)
        else column (fillna df c (median (column df c))) d)"
      by simp
    show ?thesis
    proof (cases "d = c")
      case True
      with IH False show ?thesis
        by (simp add: column_fillna fillna_values_median_twice)
    next
      case dc: False
      with IH False show ?thesis
        by (simp add: column_fillna)
    qed
  qed
qed

lemma placeholder_fill_total:
  "set cs - {t} \<subseteq> set (columns df) \<Longrightarrow> \<exists>temp. placeholder_fill cs t df = Inr temp"
  by (induction cs t df rule: placeholder_fill.induct) auto

lemma placeholder_fill_KeyError:
  "\<not> set cs - {t} \<subseteq> set (columns df) \<Longrightarrow> placeholder_fill cs t df = Inl KeyError"
  by (induction cs t df rule: placeholder_fill.induct) auto

subsection \<open>set_column and KNN_predict\<close>

lemma map2_upd_fst:
  "length vs = length xs \<Longrightarrow> map fst (map2 (\<lambda>(i, r) v. (i, r(c := v))) xs vs) = map fst xs"
  by (induction xs vs rule: list_induct2') auto

lemma map2_upd_col:
  "length vs = length xs \<Longrightarrow>
     map (\<lambda>(i, r). r d) (map2 (\<lambda>(i, r) v. (i, r(c := v))) xs vs)
       = (if d = c then vs else map (\<lambda>(i, r). r d) xs)"
  by (induction xs vs rule: list_induct2') auto

lemma set_column_props:
  assumes "set_column df c vs = Inr df'"
  shows "index df' = index df" and "dtypes df' = dtypes df"
    and "c \<in> set (columns df) \<Longrightarrow> columns df' = columns df"
    and "column df' d = (if d = c then vs else column df d)"
    and "length vs = length (rows df)"
proof -
  from assms have len: "length vs = length (rows df)"
    and rws: "rows df' = map2 (\<lambda>(i, r) v. (i, r(c := v))) (rows df) vs"
    and cls: "columns df' = (if c \<in> set (columns df) then columns df else columns df @ [c])"
    and dts: "dtypes df' = dtypes df"
    by (auto simp: set_column_def split: if_splits)
  show "index df' = index df"
    unfolding index_def rws by (rule map2_upd_fst [OF len])
  show "dtypes df' = dtypes df" by (rule dts)
  show "c \<in> set (columns df) \<Longrightarrow> columns df' = columns df" by (simp add: cls)
  show "column df' d = (if d = c then vs else column df d)"
    unfolding column_def rws by (rule map2_upd_col [OF len])
  show "length vs = length (rows df)" by (rule len)
qed

lemma KNN_predict_props:
  assumes "KNN_predict L df_missing df_temp df_filled t k = Inr df_predict"
  shows "t \<in> set (columns df_filled)" and "t \<in> set (columns df_temp)"
    and "\<exists>predicted.
           (if dtypes df_filled t = Float64 then KNN L else KNNc L) k
              (drop_column df_filled t) (column df_filled t) (drop_column df_temp t) = Inr predicted
           \<and> set_column df_missing t predicted = Inr df_predict"
  using assms by (auto simp: KNN_predict_def Let_def split: if_splits sum.splits)

subsection \<open>argmin, argmax\<close>

lemma first_nan_Some:
  "first_nan vs = Some i \<Longrightarrow> i < length vs \<and> vs ! i = None \<and> (\<forall>j<i. vs ! j \<noteq> None)"
proof (induction vs arbitrary: i rule: first_nan.induct)
  case 1
  then show ?case by simp
next
  case (2 vs)
  then show ?case by simp
next
  case (3 x vs)
  then obtain i' where i': "first_nan vs = Some i'" "i = Suc i'" by auto
  with 3 have IH: "i' < length vs \<and> vs ! i' = None \<and> (\<forall>j<i'. vs ! j \<noteq> None)" by blast
  show ?case
  proof (intro conjI allI impI)
    show "i < length (Some x # vs)" using IH i' by simp
    show "(Some x # vs) ! i = None" using IH i' by simp
    fix j assume "j < i"
    then show "(Some x # vs) ! j \<noteq> None"
      using IH i' by (cases j) auto
  qed
qed

lemma first_nan_None: "first_nan vs = None \<Longrightarrow> map Some (observed vs) = vs"
  by (induction vs rule: first_nan.induct) auto

lemma first_best_less: "xs \<noteq> [] \<Longrightarrow> first_best better xs < length xs"
  by (induction better xs rule: first_best.induct) (auto simp: Let_def)





lemma arg_best_less: "arg_best better vs = Inr p \<Longrightarrow> p < length vs"
proof -
  assume a: "arg_best better vs = Inr p"
  then have ne: "vs \<noteq> []" by (auto simp: arg_best_def split: if_splits)
  show ?thesis
  proof (cases "first_nan vs")
    case None
    then have m: "map Some (observed vs) = vs" by (rule first_nan_None)
    then have l: "length (observed vs) = length vs" by (metis length_map)
    with ne have "observed vs \<noteq> []" by auto
    from first_best_less [OF this, of better] a None ne l show ?thesis
      by (simp add: arg_best_def)
  next
    case (Some i)
    with a ne first_nan_Some [OF Some] show ?thesis by (simp add: arg_best_def)
  qed
qed

subsection \<open>The selector\<close>

lemma candidates_lengths:
  "candidates L df df_filled test_ind t ks (RSS, scores, g) = Inr (RSS', scores', g') \<Longrightarrow>
     (if dtypes df t = Float64
      then length RSS' = length RSS + length ks \<and> scores' = scores
      else length scores' = length scores + length ks \<and> RSS' = RSS)"
proof (induction ks arbitrary: RSS scores g)
  case Nil
  then show ?case by simp
next
  case (Cons k ks)
  from Cons.prems show ?case
    by (auto simp: Let_def split: prod.splits sum.splits if_splits dest!: Cons.IH)
qed

text \<open>The loop over the candidates draws from the generator once per candidate.\<close>

lemma candidates_draws:
  "candidates L df df_filled test_ind t ks (RSS, scores, g) = Inr (RSS', scores', g') \<Longrightarrow>
     g' = ((\<lambda>s. snd (sample L s (length (rows df_filled)))) ^^ length ks) g"
proof (induction ks arbitrary: RSS scores g)
  case Nil
  then show ?case by simp
next
  case (Cons k ks)
  let ?draw = "\<lambda>s. snd (sample L s (length (rows df_filled)))"
  from Cons.prems obtain RSS1 scores1 where
    "candidates L df df_filled test_ind t ks (RSS1, scores1, ?draw g) = Inr (RSS', scores', g')"
    by (auto simp: Let_def split: prod.splits sum.splits if_splits)
  from Cons.IH [OF this] have "g' = (?draw ^^ length ks) (?draw g)" .
  also have "\<dots> = (?draw ^^ Suc (length ks)) g" by (simp only: funpow_Suc_right comp_apply)
  finally show ?case by simp
qed

lemma length_grid: "length grid = 7"
  by (simp add: grid_def)

lemma repetition_position:
  assumes "repetition L df df_filled test_ind t (best_ks, g) = Inr (best_ks', g')"
  shows "\<exists>RSS scores p.
           candidates L df df_filled test_ind t grid ([], [], g) = Inr (RSS, scores, g')
         \<and> (if dtypes df t = Float64 then argmin RSS else argmax scores) = Inr p
         \<and> best_ks' = best_ks @ [p + 1] \<and> p < 7"
proof -
  from assms obtain RSS scores p where
    c: "candidates L df df_filled test_ind t grid ([], [], g) = Inr (RSS, scores, g')"
    and a: "(if dtypes df t = Float64 then argmin RSS else argmax scores) = Inr p"
    and b: "best_ks' = best_ks @ [p + 1]"
    by (auto simp: repetition_def split: sum.splits prod.splits)
  from candidates_lengths [OF c]
  have l: "if dtypes df t = Float64 then length RSS = 7 else length scores = 7"
    by (simp add: length_grid split: if_splits)
  have "p < 7"
  proof (cases "dtypes df t = Float64")
    case True
    with a have "arg_best (\<lambda>a b. a < b) RSS = Inr p" by (simp add: argmin_def)
    from arg_best_less [OF this] l True show ?thesis by simp
  next
    case False
    with a have "arg_best (\<lambda>a b. a > b) scores = Inr p" by (simp add: argmax_def)
    from arg_best_less [OF this] l False show ?thesis by simp
  qed
  with c a b show ?thesis by blast
qed

lemma repetition_draws:
  assumes "repetition L df df_filled test_ind t (best_ks, g) = Inr (best_ks', g')"
  shows "g' = ((\<lambda>s. snd (sample L s (length (rows df_filled)))) ^^ 7) g"
proof -
  from repetition_position [OF assms] obtain RSS scores where
    "candidates L df df_filled test_ind t grid ([], [], g) = Inr (RSS, scores, g')" by blast
  from candidates_draws [OF this] show ?thesis by (simp add: length_grid)
qed

lemma repetitions_positions:
  "repetitions L df df_filled test_ind t n (best_ks, g) = Inr (best_ks', g') \<Longrightarrow>
     \<exists>own. best_ks' = best_ks @ own \<and> length own = n \<and> (\<forall>v \<in> set own. 1 \<le> v \<and> v \<le> 7)"
proof (induction n arbitrary: best_ks g)
  case 0
  then show ?case by simp
next
  case (Suc n)
  from Suc.prems obtain bks1 g1 where
    r: "repetition L df df_filled test_ind t (best_ks, g) = Inr (bks1, g1)"
    and rs: "repetitions L df df_filled test_ind t n (bks1, g1) = Inr (best_ks', g')"
    by (auto split: sum.splits)
  from repetition_position [OF r] obtain p where p: "bks1 = best_ks @ [p + 1]" "p < 7" by blast
  from Suc.IH [OF rs] obtain own where
    own: "best_ks' = bks1 @ own" "length own = n" "\<forall>v \<in> set own. 1 \<le> v \<and> v \<le> 7" by blast
  show ?case
  proof (intro exI conjI)
    show "best_ks' = best_ks @ ((p + 1) # own)" using p own by simp
    show "length ((p + 1) # own) = Suc n" using own by simp
    show "\<forall>v \<in> set ((p + 1) # own). 1 \<le> v \<and> v \<le> 7" using p own by auto
  qed
qed

lemma sum_list_bounds:
  "\<forall>v \<in> set xs. a \<le> v \<and> v \<le> (b::nat) \<Longrightarrow> a * length xs \<le> sum_list xs \<and> sum_list xs \<le> b * length xs"
  by (induction xs) (auto simp: algebra_simps)

lemma int_mean_bounds:
  assumes "xs \<noteq> []" "\<forall>v \<in> set xs. a \<le> v \<and> v \<le> (b::nat)"
  shows "a \<le> sum_list xs div length xs \<and> sum_list xs div length xs \<le> b"
proof -
  from sum_list_bounds [OF assms(2)]
  have lo: "a * length xs \<le> sum_list xs" and hi: "sum_list xs \<le> b * length xs" by auto
  from assms(1) have pos: "0 < length xs" by simp
  from lo pos have "a \<le> sum_list xs div length xs"
    by (simp add: less_eq_div_iff_mult_less_eq)
  moreover from hi pos have "sum_list xs div length xs \<le> b"
    by (metis div_le_mono nonzero_mult_div_cancel_right less_numeral_extra(3))
  ultimately show ?thesis by simp
qed

lemma select_k_positions:
  assumes "select_k L df df_filled test_ind t (best_ks, g) = Inr (best_k, best_ks', g')"
  shows "\<exists>own. best_ks' = best_ks @ own \<and> length own = 10
           \<and> (\<forall>v \<in> set own. 1 \<le> v \<and> v \<le> 7)
           \<and> repetitions L df df_filled test_ind t 10 (best_ks, g) = Inr (best_ks', g')
           \<and> best_k = sum_list best_ks' div length best_ks'"
proof -
  from assms have r: "repetitions L df df_filled test_ind t 10 (best_ks, g) = Inr (best_ks', g')"
    and k: "int_mean best_ks' = Inr best_k"
    by (auto simp: select_k_def split: sum.splits prod.splits)
  from repetitions_positions [OF r] obtain own where
    own: "best_ks' = best_ks @ own" "length own = 10" "\<forall>v \<in> set own. 1 \<le> v \<and> v \<le> 7" by blast
  from k have "best_k = sum_list best_ks' div length best_ks'"
    by (auto simp: int_mean_def split: if_splits)
  with own r show ?thesis by blast
qed

text \<open>The selector reads the input frame only for the dtype of the target column.\<close>

lemma candidates_dtypes:
  assumes "dtypes df = dtypes df'"
  shows "candidates L df df_filled test_ind t ks acc = candidates L df' df_filled test_ind t ks acc"
proof (induction ks arbitrary: acc)
  case Nil
  show ?case by simp
next
  case (Cons k ks)
  obtain RSS scores g where acc: "acc = (RSS, scores, g)" by (cases acc) auto
  show ?case
    unfolding acc
    by (simp add: assms Cons.IH Let_def split: prod.splits sum.splits)
qed

lemma select_k_dtypes:
  assumes "dtypes df = dtypes df'"
  shows "select_k L df df_filled test_ind t acc = select_k L df' df_filled test_ind t acc"
proof -
  have r: "repetition L df df_filled test_ind t a = repetition L df' df_filled test_ind t a" for a
    unfolding repetition_def candidates_dtypes [OF assms] assms by (rule refl)
  have "repetitions L df df_filled test_ind t n a = repetitions L df' df_filled test_ind t n a"
    for n a
    by (induction n arbitrary: a) (simp_all add: r split: sum.splits)
  then show ?thesis by (simp add: select_k_def)
qed

subsection \<open>The loop over the columns\<close>

lemma column_loop_step:
  assumes "column_loop L df df_filled test_ind mc (t # cs) (df_missing, best_ks, g) = Inr st"
  shows "\<exists>temp_df best_k best_ks1 g1 df_missing1.
           placeholder_fill mc t df_missing = Inr temp_df
         \<and> select_k L df df_filled test_ind t (best_ks, g) = Inr (best_k, best_ks1, g1)
         \<and> KNN_predict L df_missing temp_df df_filled t best_k = Inr df_missing1
         \<and> column_loop L df df_filled test_ind mc cs (df_missing1, best_ks1, g1) = Inr st"
  using assms by (auto split: sum.splits prod.splits)

lemma column_loop_dtypes:
  assumes "dtypes df = dtypes df'"
  shows "column_loop L df df_filled test_ind mc cs st = column_loop L df' df_filled test_ind mc cs st"
proof (induction cs arbitrary: st)
  case Nil
  show ?case by simp
next
  case (Cons t cs)
  obtain df_missing best_ks g where st: "st = (df_missing, best_ks, g)" by (cases st) auto
  show ?case
    unfolding st
    by (simp add: select_k_dtypes [OF assms] Cons.IH split: sum.splits prod.splits)
qed

lemma column_loop_frame:
  "column_loop L df df_filled test_ind mc cs (df_missing, best_ks, g) = Inr (df_missing', best_ks', g') \<Longrightarrow>
     index df_missing' = index df_missing
   \<and> columns df_missing' = columns df_missing
   \<and> dtypes df_missing' = dtypes df_missing
   \<and> set cs \<subseteq> set (columns df_filled)
   \<and> set cs \<subseteq> set (columns df_missing)
   \<and> (\<forall>c. c \<notin> set cs \<longrightarrow> column df_missing' c = column df_missing c)"
proof (induction cs arbitrary: df_missing best_ks g)
  case Nil
  then show ?case by simp
next
  case (Cons t cs)
  from column_loop_step [OF Cons.prems] obtain temp_df best_k best_ks1 g1 df_missing1 where
    pf: "placeholder_fill mc t df_missing = Inr temp_df"
    and kp: "KNN_predict L df_missing temp_df df_filled t best_k = Inr df_missing1"
    and cl: "column_loop L df df_filled test_ind mc cs (df_missing1, best_ks1, g1)
               = Inr (df_missing', best_ks', g')"
    by blast
  note IH = Cons.IH [OF cl]
  from KNN_predict_props [OF kp] obtain predicted where
    tf: "t \<in> set (columns df_filled)" and tt: "t \<in> set (columns temp_df)"
    and sc: "set_column df_missing t predicted = Inr df_missing1" by blast
  from placeholder_fill_columns [OF pf] tt have tm: "t \<in> set (columns df_missing)" by simp
  note S = set_column_props [OF sc]
  show ?case
    using IH tf tm S(1,2) S(3) [OF tm] S(4) by auto
qed

lemma column_loop_best_ks:
  "column_loop L df df_filled test_ind mc cs (df_missing, best_ks, g) = Inr (df_missing', best_ks', g') \<Longrightarrow>
     \<forall>v \<in> set best_ks. 1 \<le> v \<and> v \<le> 7 \<Longrightarrow>
     length best_ks' = length best_ks + 10 * length cs \<and> (\<forall>v \<in> set best_ks'. 1 \<le> v \<and> v \<le> 7)"
proof (induction cs arbitrary: df_missing best_ks g)
  case Nil
  then show ?case by simp
next
  case (Cons t cs)
  from column_loop_step [OF Cons.prems(1)] obtain best_k best_ks1 g1 df_missing1 where
    sk: "select_k L df df_filled test_ind t (best_ks, g) = Inr (best_k, best_ks1, g1)"
    and cl: "column_loop L df df_filled test_ind mc cs (df_missing1, best_ks1, g1)
               = Inr (df_missing', best_ks', g')"
    by blast
  from select_k_positions [OF sk] obtain own where
    own: "best_ks1 = best_ks @ own" "length own = 10" "\<forall>v \<in> set own. 1 \<le> v \<and> v \<le> 7" by blast
  with Cons.prems(2) have inv: "\<forall>v \<in> set best_ks1. 1 \<le> v \<and> v \<le> 7" by auto
  from Cons.IH [OF cl inv] own show ?case by simp
qed

lemma column_loop_no_nan:
  assumes est: "\<forall>k X y Q ps. KNN L k X y Q = Inr ps \<longrightarrow> None \<notin> set ps"
               "\<forall>k X y Q ps. KNNc L k X y Q = Inr ps \<longrightarrow> None \<notin> set ps"
  shows "column_loop L df df_filled test_ind mc cs (df_missing, best_ks, g) = Inr (df_missing', best_ks', g') \<Longrightarrow>
     \<forall>c \<in> set cs. None \<notin> set (column df_missing' c)"
proof (induction cs arbitrary: df_missing best_ks g)
  case Nil
  then show ?case by simp
next
  case (Cons t cs)
  from column_loop_step [OF Cons.prems] obtain temp_df best_k best_ks1 g1 df_missing1 where
    kp: "KNN_predict L df_missing temp_df df_filled t best_k = Inr df_missing1"
    and cl: "column_loop L df df_filled test_ind mc cs (df_missing1, best_ks1, g1)
               = Inr (df_missing', best_ks', g')"
    by blast
  note IH = Cons.IH [OF cl]
  from KNN_predict_props(3) [OF kp] obtain predicted where
    p: "(if dtypes df_filled t = Float64 then KNN L else KNNc L) best_k
              (drop_column df_filled t) (column df_filled t) (drop_column temp_df t) = Inr predicted"
    and sc: "set_column df_missing t predicted = Inr df_missing1"
    by blast
  from p est have nn: "None \<notin> set predicted" by (auto split: if_splits)
  from set_column_props(4) [OF sc, of t] have c1: "column df_missing1 t = predicted" by simp
  have "None \<notin> set (column df_missing' t)"
  proof (cases "t \<in> set cs")
    case True
    with IH show ?thesis by blast
  next
    case False
    with column_loop_frame [OF cl] have "column df_missing' t = column df_missing1 t" by blast
    with c1 nn show ?thesis by simp
  qed
  with IH show ?case by auto
qed

subsection \<open>Merging the two subsets back\<close>

lemma insort_key_map:
  assumes "\<And>x. g (h x) = f x"
  shows "map h (insort_key f x ys) = insort_key g (h x) (map h ys)"
  by (induction ys) (simp_all add: assms)

lemma sort_key_map:
  assumes "\<And>x. g (h x) = f x"
  shows "map h (sort_key f xs) = sort_key g (map h xs)"
  by (induction xs) (simp_all add: insort_key_map [of g h f, OF assms])

lemma sort_partition:
  fixes xs :: "(int \<times> 'a) list"
  assumes "sorted_wrt (<) (map fst xs)"
  shows "sort_key fst (filter (\<lambda>x. \<not> P x) xs @ filter P xs) = xs"
proof -
  let ?ys = "filter (\<lambda>x. \<not> P x) xs @ filter P xs"
  from assms have s: "sorted (map fst xs)" and d: "distinct (map fst xs)"
    by (simp_all add: strict_sorted_iff)
  from d have dx: "distinct xs" and inj: "inj_on fst (set xs)"
    by (simp_all add: distinct_map)
  have st: "set ?ys = set xs" by auto
  have dy: "distinct ?ys" using dx by auto
  show ?thesis
  proof (rule map_sorted_distinct_set_unique [of fst])
    show "inj_on fst (set (sort_key fst ?ys) \<union> set xs)" using inj st by simp
    show "sorted (map fst (sort_key fst ?ys))" by (rule sorted_sort_key)
    show "distinct (map fst (sort_key fst ?ys))"
      using dy inj st by (simp add: distinct_map)
    show "sorted (map fst xs)" by (rule s)
    show "distinct (map fst xs)" by (rule d)
    show "set (sort_key fst ?ys) = set xs" using st by simp
  qed
qed

lemma map_pair_eq:
  "map fst ms = map fst ys \<Longrightarrow> map (\<lambda>(i, r). h r) ms = map (\<lambda>(i, r). h r) ys \<Longrightarrow>
     map (\<lambda>(i, r). (i, h r)) ms = map (\<lambda>(i, r). (i, h r)) ys"
proof (induction ms arbitrary: ys)
  case Nil
  then show ?case by simp
next
  case (Cons m ms)
  then obtain y ys' where ys: "ys = y # ys'" by (cases ys) auto
  with Cons show ?case by (auto simp: case_prod_unfold)
qed

lemma merge_restores:
  fixes xs :: "(int \<times> 'a) list"
  assumes srt: "sorted_wrt (<) (map fst xs)"
    and idx: "map fst ms = map fst (filter P xs)"
    and col: "map (\<lambda>(i, r). h r) ms = map (\<lambda>(i, r). h r) (filter P xs)"
  shows "map (\<lambda>(i, r). (i, h r)) (sort_key fst (filter (\<lambda>x. \<not> P x) xs @ ms))
           = map (\<lambda>(i, r). (i, h r)) xs"
proof -
  let ?pi = "\<lambda>(i, r). (i, h r)"
  have key: "\<And>x. fst (?pi x) = fst x" by (simp add: case_prod_unfold)
  note comm = sort_key_map [of fst ?pi fst, OF key]
  have "map ?pi (sort_key fst (filter (\<lambda>x. \<not> P x) xs @ ms))
          = sort_key fst (map ?pi (filter (\<lambda>x. \<not> P x) xs @ ms))"
    by (rule comm)
  also have "map ?pi (filter (\<lambda>x. \<not> P x) xs @ ms)
          = map ?pi (filter (\<lambda>x. \<not> P x) xs @ filter P xs)"
    using map_pair_eq [OF idx col] by simp
  also have "sort_key fst (map ?pi (filter (\<lambda>x. \<not> P x) xs @ filter P xs))
          = map ?pi (sort_key fst (filter (\<lambda>x. \<not> P x) xs @ filter P xs))"
    by (rule comm [symmetric])
  also have "\<dots> = map ?pi xs" by (simp only: sort_partition [OF srt])
  finally show ?thesis .
qed

lemma merge_restores_index:
  fixes xs :: "(int \<times> 'a) list"
  assumes srt: "sorted_wrt (<) (map fst xs)"
    and idx: "map fst ms = map fst (filter P xs)"
  shows "map fst (sort_key fst (filter (\<lambda>x. \<not> P x) xs @ ms)) = map fst xs"
proof -
  have col: "map (\<lambda>(i, r). ()) ms = map (\<lambda>(i, r). ()) (filter P xs)"
    using arg_cong [OF idx, of length] by (simp add: list_eq_iff_nth_eq)
  from merge_restores [OF srt idx, of "\<lambda>r. ()", OF col]
  have "map fst (map (\<lambda>(i, r). (i, ())) (sort_key fst (filter (\<lambda>x. \<not> P x) xs @ ms)))
          = map fst (map (\<lambda>(i, r). (i, ())) xs)" by simp
  then show ?thesis by (simp add: comp_def case_prod_unfold)
qed

lemma merge_restores_column:
  fixes xs :: "(int \<times> 'a) list"
  assumes srt: "sorted_wrt (<) (map fst xs)"
    and idx: "map fst ms = map fst (filter P xs)"
    and col: "map (\<lambda>(i, r). h r) ms = map (\<lambda>(i, r). h r) (filter P xs)"
  shows "map (\<lambda>(i, r). h r) (sort_key fst (filter (\<lambda>x. \<not> P x) xs @ ms)) = map (\<lambda>(i, r). h r) xs"
proof -
  from merge_restores [OF srt idx col]
  have "map snd (map (\<lambda>(i, r). (i, h r)) (sort_key fst (filter (\<lambda>x. \<not> P x) xs @ ms)))
          = map snd (map (\<lambda>(i, r). (i, h r)) xs)" by simp
  then show ?thesis by (simp add: comp_def case_prod_unfold)
qed

text \<open>Without any assumption on the labels the merge keeps the rows as a multiset.\<close>

lemma merge_keeps_rows:
  fixes xs :: "(int \<times> 'a) list"
  assumes idx: "map fst ms = map fst (filter P xs)"
    and col: "map (\<lambda>(i, r). h r) ms = map (\<lambda>(i, r). h r) (filter P xs)"
  shows "mset (map (\<lambda>(i, r). (i, h r)) (sort_key fst (filter (\<lambda>x. \<not> P x) xs @ ms)))
           = mset (map (\<lambda>(i, r). (i, h r)) xs)"
proof -
  let ?pi = "\<lambda>(i, r). (i, h r)"
  have "mset (map ?pi (sort_key fst (filter (\<lambda>x. \<not> P x) xs @ ms)))
          = mset (map ?pi (filter (\<lambda>x. \<not> P x) xs)) + mset (map ?pi ms)"
    by simp
  also have "map ?pi ms = map ?pi (filter P xs)" by (rule map_pair_eq [OF idx col])
  also have "mset (map ?pi (filter (\<lambda>x. \<not> P x) xs)) + mset (map ?pi (filter P xs))
          = mset (map ?pi xs)"
    by (induction xs) auto
  finally show ?thesis .
qed

lemma mset_map_partition:
  "mset (map f (filter (\<lambda>x. \<not> P x) xs)) + mset (map f (filter P xs)) = mset (map f xs)"
  by (induction xs) auto

lemma merge_keeps_index:
  fixes xs :: "(int \<times> 'a) list"
  assumes idx: "map fst ms = map fst (filter P xs)"
  shows "mset (map fst (sort_key fst (filter (\<lambda>x. \<not> P x) xs @ ms))) = mset (map fst xs)"
proof -
  have "mset (map fst (sort_key fst (filter (\<lambda>x. \<not> P x) xs @ ms)))
          = mset (map fst (filter (\<lambda>x. \<not> P x) xs)) + mset (map fst ms)"
    by simp
  also have "\<dots> = mset (map fst (filter (\<lambda>x. \<not> P x) xs)) + mset (map fst (filter P xs))"
    by (simp only: idx)
  also have "\<dots> = mset (map fst xs)" by (rule mset_map_partition)
  finally show ?thesis .
qed

lemma zip_map_same: "zip (map f xs) (map g xs) = map (\<lambda>x. (f x, g x)) xs"
  by (induction xs) auto

lemma zip_index_column: "zip (index df) (column df c) = map (\<lambda>(i, r). (i, r c)) (rows df)"
  unfolding index_def column_def by (simp add: zip_map_same case_prod_unfold)

subsection \<open>KNN_fill as a whole\<close>

lemma KNN_fill_run:
  assumes "KNN_fill L g df mc = Inr (df_final, g')"
  shows "\<exists>df_missing' best_ks.
           column_loop L df (filled_subset df) (test_index (filled_subset df)) mc mc
             (missing_subset df, [], g) = Inr (df_missing', best_ks, g')
         \<and> columns df_final = columns df \<and> dtypes df_final = dtypes df
         \<and> rows df_final = sort_key fst (rows (filled_subset df) @ rows df_missing')"
  using assms
  by (auto simp: KNN_fill_def Let_def sort_index_def concat_frames_def filled_subset_def
           split: sum.splits prod.splits)

lemma rows_filled_subset:
  "rows (filled_subset df) = filter (\<lambda>x. \<not> (case x of (i, r) \<Rightarrow> isnull_any df r)) (rows df)"
  by (simp add: filled_subset_def case_prod_unfold)

lemma rows_missing_subset:
  "rows (missing_subset df) = filter (\<lambda>(i, r). isnull_any df r) (rows df)"
  by (simp add: missing_subset_def)

lemma filled_no_nan:
  "c \<in> set (columns df) \<Longrightarrow> None \<notin> set (column (filled_subset df) c)"
  by (auto simp: column_def filled_subset_def isnull_any_def list_ex_iff)

lemma KNN_fill_shape:
  assumes run: "KNN_fill L g df mc = Inr (df_final, g')"
    and srt: "sorted_wrt (<) (index df)"
  shows "index df_final = index df"
    and "c \<notin> set mc \<Longrightarrow> column df_final c = column df c"
proof -
  from KNN_fill_run [OF run] obtain df_missing' best_ks where
    cl: "column_loop L df (filled_subset df) (test_index (filled_subset df)) mc mc
             (missing_subset df, [], g) = Inr (df_missing', best_ks, g')"
    and rws: "rows df_final = sort_key fst (rows (filled_subset df) @ rows df_missing')"
    by blast
  note F = column_loop_frame [OF cl]
  from srt have srt': "sorted_wrt (<) (map fst (rows df))" by (simp add: index_def)
  from F have idx: "map fst (rows df_missing') = map fst (filter (\<lambda>(i, r). isnull_any df r) (rows df))"
    by (simp add: index_def rows_missing_subset)
  show "index df_final = index df"
    unfolding index_def rws rows_filled_subset
    by (rule merge_restores_index [OF srt' idx])
  assume "c \<notin> set mc"
  with F have "column df_missing' c = column (missing_subset df) c" by blast
  then have col: "map (\<lambda>(i, r). r c) (rows df_missing')
                    = map (\<lambda>(i, r). r c) (filter (\<lambda>(i, r). isnull_any df r) (rows df))"
    by (simp add: column_def rows_missing_subset)
  show "column df_final c = column df c"
    unfolding column_def rws rows_filled_subset
    by (rule merge_restores_column [OF srt' idx col])
qed

lemma KNN_fill_multiset:
  assumes run: "KNN_fill L g df mc = Inr (df_final, g')"
  shows "mset (index df_final) = mset (index df)"
    and "c \<notin> set mc \<Longrightarrow>
           mset (zip (index df_final) (column df_final c)) = mset (zip (index df) (column df c))"
proof -
  from KNN_fill_run [OF run] obtain df_missing' best_ks where
    cl: "column_loop L df (filled_subset df) (test_index (filled_subset df)) mc mc
             (missing_subset df, [], g) = Inr (df_missing', best_ks, g')"
    and rws: "rows df_final = sort_key fst (rows (filled_subset df) @ rows df_missing')"
    by blast
  note F = column_loop_frame [OF cl]
  from F have idx: "map fst (rows df_missing') = map fst (filter (\<lambda>(i, r). isnull_any df r) (rows df))"
    by (simp add: index_def rows_missing_subset)
  show "mset (index df_final) = mset (index df)"
    unfolding index_def rws rows_filled_subset
    by (rule merge_keeps_index [OF idx])
  assume "c \<notin> set mc"
  with F have "column df_missing' c = column (missing_subset df) c" by blast
  then have col: "map (\<lambda>(i, r). r c) (rows df_missing')
                    = map (\<lambda>(i, r). r c) (filter (\<lambda>(i, r). isnull_any df r) (rows df))"
    by (simp add: column_def rows_missing_subset)
  show "mset (zip (index df_final) (column df_final c)) = mset (zip (index df) (column df c))"
    unfolding zip_index_column rws rows_filled_subset
    by (rule merge_keeps_rows [OF idx col])
qed

lemma KNN_fill_sorted:
  assumes run: "KNN_fill L g df mc = Inr (df_final, g')"
  shows "sorted (index df_final)"
proof -
  from KNN_fill_run [OF run] obtain df_missing' :: frame where
    "rows df_final = sort_key fst (rows (filled_subset df) @ rows df_missing')" by auto
  then show ?thesis by (simp add: index_def)
qed

lemma KNN_fill_no_nan:
  assumes run: "KNN_fill L g df mc = Inr (df_final, g')"
    and est: "\<forall>k X y Q ps. KNN L k X y Q = Inr ps \<longrightarrow> None \<notin> set ps"
             "\<forall>k X y Q ps. KNNc L k X y Q = Inr ps \<longrightarrow> None \<notin> set ps"
    and c: "c \<in> set mc"
  shows "None \<notin> set (column df_final c)" and "c \<in> set (columns df)"
proof -
  from KNN_fill_run [OF run] obtain df_missing' best_ks where
    cl: "column_loop L df (filled_subset df) (test_index (filled_subset df)) mc mc
             (missing_subset df, [], g) = Inr (df_missing', best_ks, g')"
    and rws: "rows df_final = sort_key fst (rows (filled_subset df) @ rows df_missing')"
    by blast
  from column_loop_frame [OF cl] c show cc: "c \<in> set (columns df)"
    by (auto simp: filled_subset_def)
  from column_loop_no_nan [OF est cl] c have m: "None \<notin> set (column df_missing' c)" by blast
  have "set (column df_final c) = set (column (filled_subset df) c) \<union> set (column df_missing' c)"
    by (simp add: column_def rws image_Un)
  with m filled_no_nan [OF cc] show "None \<notin> set (column df_final c)" by simp
qed

subsection \<open>The rounder\<close>

lemma round_column_props:
  assumes "round_column df c = Inr df'"
  shows "index df' = index df" and "columns df' = columns df" and "dtypes df' = dtypes df"
    and "c \<in> set (columns df)"
    and "column df' d = (if d = c then map (map_option round_half_even) (column df c) else column df d)"
  using assms
  by (auto simp: round_column_def index_def column_def comp_def case_prod_unfold split: if_splits)

lemma rounder_props:
  "rounder cs df = Inr df' \<Longrightarrow>
     index df' = index df \<and> columns df' = columns df \<and> dtypes df' = dtypes df
   \<and> (\<forall>c. c \<notin> set cs \<longrightarrow> column df' c = column df c)
   \<and> (\<forall>c. None \<in> set (column df' c) \<longleftrightarrow> None \<in> set (column df c))"
proof (induction cs arbitrary: df)
  case Nil
  then show ?case by simp
next
  case (Cons c cs)
  from Cons.prems obtain df1 where r: "round_column df c = Inr df1" and rs: "rounder cs df1 = Inr df'"
    by (auto split: sum.splits)
  note R = round_column_props [OF r]
  have nn: "None \<in> set (column df1 d) \<longleftrightarrow> None \<in> set (column df d)" for d
    by (auto simp: R(5))
  from Cons.IH [OF rs] R(1,2,3) R(5) nn show ?case by auto
qed

subsection \<open>The full run\<close>

lemma impute_run:
  assumes "impute L g df mc = Inr (listings_clean, g')"
  shows "\<exists>df_final. KNN_fill L g df mc = Inr (df_final, g') \<and> rounder mc df_final = Inr listings_clean"
  using assms by (auto simp: impute_def split: sum.splits prod.splits)

subsection \<open>The recorded position is the first best score\<close>




section \<open>The run on the concrete dataset\<close>

subsection \<open>The selector on the concrete dataset\<close>

lemma ex_filled_eq: "filled_subset ex_df = ex_filled"
  by (simp add: filled_subset_def select_rows_def isnull_any_def ex_df_def ex_rows_def
        ex_filled_def mk_row_def)

lemma ex_missing_eq: "missing_subset ex_df = ex_missing"
  by (simp add: missing_subset_def select_rows_def isnull_any_def ex_df_def ex_rows_def
        ex_missing_def mk_row_def)

lemma ex_test_index: "test_index ex_filled = 5"
  by (simp add: test_index_def ex_filled_def)

lemmas ex_eval =
  ex_lib_def ex_df_def ex_filled_def tape_sample_def tape_same_def tape_alternating_def forward_def backward_def
  iloc_def iloc_upto_def iloc_from_def KNN_predict_def drop_column_def column_def set_column_def
  knn_regressor_def accepts_def notnull_def nearest_def sq_dist_def
  mse_def mean_skipna_def squared_error_def mk_row_def grid_def power2_eq_square

lemma ex_candidates_a:
  "candidates ex_lib ex_df ex_filled 5 ''a'' grid ([], [], []) =
     Inr ([Some 1, Some (1 / 9), Some (1 / 25), Some (1 / 49), Some (121 / 81),
           Some (961 / 121), Some (2601 / 169)], [], [])"
  by (simp add: ex_eval)


lemma ex_candidates_a_same:
  "candidates ex_lib ex_df ex_filled 5 ''a'' grid ([], [], tape_same) =
     Inr ([Some 1, Some (1 / 9), Some (1 / 25), Some (1 / 49), Some (121 / 81),
           Some (961 / 121), Some (2601 / 169)], [], [])"
  by (simp add: ex_eval)

lemma ex_candidates_a_alternating:
  "candidates ex_lib ex_df ex_filled 5 ''a'' grid ([], [], tape_alternating) =
     Inr ([Some 1, Some 100, Some (1 / 25), Some 100, Some (121 / 81),
           Some (11881 / 121), Some (2601 / 169)], [], [])"
  by (simp add: ex_eval)

lemma ex_candidates_b:
  "candidates ex_lib ex_df ex_filled 5 ''b'' grid ([], [], []) =
     Inr ([Some 0, Some 0, Some 0, Some 0, Some 0, Some 0, Some 0], [], [])"
  by (simp add: ex_eval)

lemma ex_dtypes: "dtypes ex_df c = Float64"
  by (simp add: ex_df_def)

lemma ex_argmin_a:
  "argmin [Some 1, Some (1 / 9), Some (1 / 25), Some (1 / 49), Some (121 / 81),
           Some (961 / 121), Some (2601 / 169)] = Inr 3"
  by (simp add: argmin_def arg_best_def)

lemma ex_argmin_a_alternating:
  "argmin [Some 1, Some 100, Some (1 / 25), Some 100, Some (121 / 81),
           Some (11881 / 121), Some (2601 / 169)] = Inr 2"
  by (simp add: argmin_def arg_best_def)

lemma ex_argmin_b:
  "argmin [Some 0, Some 0, Some 0, Some 0, Some 0, Some 0, Some 0] = Inr 0"
  by (simp add: argmin_def arg_best_def)

lemma ex_repetition_a:
  "repetition ex_lib ex_df ex_filled 5 ''a'' (best_ks, []) = Inr (best_ks @ [4], [])"
  by (simp add: repetition_def ex_candidates_a ex_dtypes ex_argmin_a)

lemma ex_repetition_b:
  "repetition ex_lib ex_df ex_filled 5 ''b'' (best_ks, []) = Inr (best_ks @ [1], [])"
  by (simp add: repetition_def ex_candidates_b ex_dtypes ex_argmin_b)

lemma ex_repetitions_a:
  "repetitions ex_lib ex_df ex_filled 5 ''a'' n (best_ks, []) = Inr (best_ks @ replicate n 4, [])"
  by (induction n arbitrary: best_ks) (simp_all add: ex_repetition_a replicate_app_Cons_same)

lemma ex_repetitions_b:
  "repetitions ex_lib ex_df ex_filled 5 ''b'' n (best_ks, []) = Inr (best_ks @ replicate n 1, [])"
  by (induction n arbitrary: best_ks) (simp_all add: ex_repetition_b replicate_app_Cons_same)

lemma ex_select_k_a:
  "select_k ex_lib ex_df ex_filled 5 ''a'' ([], []) = Inr (4, replicate 10 4, [])"
  by (simp add: select_k_def ex_repetitions_a int_mean_def sum_list_replicate)

lemma ex_select_k_b:
  "select_k ex_lib ex_df ex_filled 5 ''b'' (replicate 10 4, []) =
     Inr (2, replicate 10 4 @ replicate 10 1, [])"
  by (simp add: select_k_def ex_repetitions_b int_mean_def sum_list_replicate)

subsection \<open>The loop over the columns and the merge on the concrete dataset\<close>

lemma ex_placeholder_a:
  "placeholder_fill [''a'', ''b''] ''a'' ex_missing = Inr ex_temp_a"
  by (simp add: ex_temp_a_def ex_missing_def fillna_def column_def median_def mk_row_def
        fun_eq_iff)

lemma ex_predict_a:
  "KNN_predict ex_lib ex_missing ex_temp_a ex_filled ''a'' 4 = Inr ex_missing_a"
  by (simp add: ex_eval ex_temp_a_def ex_missing_a_def ex_missing_def fun_eq_iff)

lemma ex_placeholder_b:
  "placeholder_fill [''a'', ''b''] ''b'' ex_missing_a = Inr ex_missing_a"
  by (simp add: ex_missing_a_def ex_missing_def fillna_def column_def median_def mk_row_def
        fun_eq_iff)

lemma ex_predict_b:
  "KNN_predict ex_lib ex_missing_a ex_missing_a ex_filled ''b'' 2 = Inr ex_missing_b"
  by (simp add: ex_eval ex_missing_a_def ex_missing_b_def ex_missing_def fun_eq_iff)

lemma ex_column_loop:
  "column_loop ex_lib ex_df ex_filled 5 [''a'', ''b''] [''a'', ''b''] (ex_missing, [], []) =
     Inr (ex_missing_b, replicate 10 4 @ replicate 10 1, [])"
  by (simp add: ex_placeholder_a ex_select_k_a ex_predict_a ex_placeholder_b ex_select_k_b
        ex_predict_b del: placeholder_fill.simps)

lemma ex_KNN_fill:
  "KNN_fill ex_lib [] ex_df [''a'', ''b''] = Inr (ex_final, [])"
  by (simp add: KNN_fill_def ex_filled_eq ex_missing_eq ex_test_index ex_column_loop
        sort_index_def concat_frames_def del: column_loop.simps)
     (simp add: ex_final_def ex_filled_def ex_missing_b_def ex_missing_def ex_df_def ex_rows_def)

lemma ex_impute:
  "impute ex_lib [] ex_df [''a'', ''b''] = Inr (ex_clean, [])"
  by (simp add: impute_def ex_KNN_fill)
     (simp add: ex_final_def ex_clean_def round_column_def round_half_even_def ex_df_def
        ex_rows_def mk_row_def fun_eq_iff)

subsection \<open>More facts about the concrete dataset\<close>

lemma ex_sorted: "sorted_wrt (<) (index ex_df)"
  by (simp add: index_def ex_df_def ex_rows_def)

lemma ex_lib_predictions:
  "\<forall>k X y Q ps. KNN ex_lib k X y Q = Inr ps \<longrightarrow> None \<notin> set ps"
  "\<forall>k X y Q ps. KNNc ex_lib k X y Q = Inr ps \<longrightarrow> None \<notin> set ps"
  by (auto simp: ex_lib_def knn_regressor_def knn_classifier_def Let_def split: if_splits)

lemma ex_repetition_same:
  "repetition ex_lib ex_df ex_filled 5 ''a'' ([], tape_same) = Inr ([4], [])"
  by (simp add: repetition_def ex_candidates_a_same ex_dtypes ex_argmin_a)

lemma ex_repetition_alternating:
  "repetition ex_lib ex_df ex_filled 5 ''a'' ([], tape_alternating) = Inr ([3], [])"
  by (simp add: repetition_def ex_candidates_a_alternating ex_dtypes ex_argmin_a_alternating)

lemma ex_select_k_b_alone:
  "select_k ex_lib ex_df ex_filled 5 ''b'' ([], []) = Inr (1, replicate 10 1, [])"
  by (simp add: select_k_def ex_repetitions_b int_mean_def sum_list_replicate)

lemma ex_column_loop_a:
  "column_loop ex_lib ex_df ex_filled 5 [''a'', ''b''] [''a''] (ex_missing, [], []) =
     Inr (ex_missing_a, replicate 10 4, [])"
  by (simp add: ex_placeholder_a ex_select_k_a ex_predict_a del: placeholder_fill.simps)

lemma ex_columns_missing:
  "index ex_missing = [2, 7]"
  "column ex_missing ''a'' = [None, Some 5]"
  "column ex_missing ''b'' = [Some 3, None]"
  "column ex_missing ''c'' = [Some 640, Some 660]"
  by (simp_all add: index_def column_def ex_missing_def mk_row_def)

lemma ex_columns_missing_a:
  "index ex_missing_a = [2, 7]"
  "column ex_missing_a ''a'' = [Some (1 / 4), Some (1 / 4)]"
  "column ex_missing_a ''b'' = [Some 3, None]"
  "column ex_missing_a ''c'' = [Some 640, Some 660]"
  by (simp_all add: index_def column_def ex_missing_a_def ex_missing_def mk_row_def)

subsection \<open>The same rows in another order\<close>

lemma swap_filled_eq: "filled_subset swap_df = ex_filled"
  by (simp add: filled_subset_def select_rows_def isnull_any_def swap_df_def ex_df_def ex_rows_def
        ex_filled_def mk_row_def)

lemma swap_missing_eq: "missing_subset swap_df = ex_missing\<lparr>rows := rev (rows ex_missing)\<rparr>"
  by (simp add: missing_subset_def select_rows_def isnull_any_def swap_df_def ex_df_def ex_rows_def
        ex_missing_def mk_row_def)

lemma swap_dtypes: "dtypes swap_df = dtypes ex_df"
  by (simp add: swap_df_def)

lemma swap_placeholder_a:
  "placeholder_fill [''a'', ''b''] ''a'' (ex_missing\<lparr>rows := rev (rows ex_missing)\<rparr>)
     = Inr (ex_temp_a\<lparr>rows := rev (rows ex_temp_a)\<rparr>)"
  by (simp add: ex_temp_a_def ex_missing_def fillna_def column_def median_def mk_row_def
        fun_eq_iff)

lemma swap_predict_a:
  "KNN_predict ex_lib (ex_missing\<lparr>rows := rev (rows ex_missing)\<rparr>)
       (ex_temp_a\<lparr>rows := rev (rows ex_temp_a)\<rparr>) ex_filled ''a'' 4
     = Inr (ex_missing_a\<lparr>rows := rev (rows ex_missing_a)\<rparr>)"
  by (simp add: ex_eval ex_temp_a_def ex_missing_a_def ex_missing_def fun_eq_iff)

lemma swap_placeholder_b:
  "placeholder_fill [''a'', ''b''] ''b'' (ex_missing_a\<lparr>rows := rev (rows ex_missing_a)\<rparr>)
     = Inr (ex_missing_a\<lparr>rows := rev (rows ex_missing_a)\<rparr>)"
  by (simp add: ex_missing_a_def ex_missing_def fillna_def column_def median_def mk_row_def
        fun_eq_iff)

lemma swap_predict_b:
  "KNN_predict ex_lib (ex_missing_a\<lparr>rows := rev (rows ex_missing_a)\<rparr>)
       (ex_missing_a\<lparr>rows := rev (rows ex_missing_a)\<rparr>) ex_filled ''b'' 2
     = Inr (ex_missing_b\<lparr>rows := rev (rows ex_missing_b)\<rparr>)"
  by (simp add: ex_eval ex_missing_a_def ex_missing_b_def ex_missing_def fun_eq_iff)

lemma swap_column_loop:
  "column_loop ex_lib swap_df ex_filled 5 [''a'', ''b''] [''a'', ''b'']
       (ex_missing\<lparr>rows := rev (rows ex_missing)\<rparr>, [], [])
     = Inr (ex_missing_b\<lparr>rows := rev (rows ex_missing_b)\<rparr>, replicate 10 4 @ replicate 10 1, [])"
  unfolding column_loop_dtypes [OF swap_dtypes]
  by (simp add: swap_placeholder_a ex_select_k_a swap_predict_a swap_placeholder_b ex_select_k_b
        swap_predict_b del: placeholder_fill.simps)

lemma swap_KNN_fill: "KNN_fill ex_lib [] swap_df [''a'', ''b''] = Inr (ex_final, [])"
  by (simp add: KNN_fill_def swap_filled_eq swap_missing_eq ex_test_index swap_column_loop
        sort_index_def concat_frames_def del: column_loop.simps)
     (simp add: ex_final_def ex_filled_def ex_missing_b_def ex_missing_def ex_df_def ex_rows_def)

lemma swap_impute: "impute ex_lib [] swap_df [''a'', ''b''] = Inr (ex_clean, [])"
  by (simp add: impute_def swap_KNN_fill)
     (simp add: ex_final_def ex_clean_def round_column_def round_half_even_def ex_df_def
        ex_rows_def mk_row_def fun_eq_iff)

lemma rev_KNN_fill: "KNN_fill ex_lib [] rev_df [] = Inr (ex_df, [])"
  by (simp add: KNN_fill_def sort_index_def concat_frames_def filled_subset_def
        missing_subset_def select_rows_def isnull_any_def rev_df_def ex_df_def ex_rows_def
        mk_row_def)

section \<open>The claims\<close>

subsection \<open>C1: the full run fills the MissingSet; the other columns come back in label order\<close>

text \<open>
  Claim C1 says that for every input dataset, after the full imputation run (\<^verbatim>\<open>KNN_fill\<close>,
  then the rounding cell), no column of the MissingSet has a missing value in any row and
  every column outside the MissingSet is unchanged from the input, byte for byte.
  \<^verbatim>\<open>KNN_fill\<close> ends with \<^verbatim>\<open>sort_index\<close>: the rows of the result are in increasing order of
  their index label, whatever their order in the input. On \<open>swap_df\<close>, where the rows
  labelled 2 and 7 have changed places, the run returns the frame it returns on \<open>ex_df\<close>:
  the index and column \<open>c\<close>, which is outside the MissingSet, are not those of the input.
\<close>

theorem impute_sorts_swapped_rows:
  "impute ex_lib [] swap_df [''a'', ''b''] = Inr (ex_clean, [])
   \<and> index swap_df = [0, 1, 7, 3, 4, 5, 6, 2, 8, 9, 10, 11, 12, 13, 14, 15, 16, 17, 18, 19]
   \<and> index ex_clean = [0, 1, 2, 3, 4, 5, 6, 7, 8, 9, 10, 11, 12, 13, 14, 15, 16, 17, 18, 19]
   \<and> column swap_df ''c'' =
       [Some 100, Some 200, Some 660, Some 300, Some 400, Some 500, Some 600,
        Some 640, Some 700, Some 800, Some 900, Some 1000, Some 1100, Some 1200,
        Some 1300, Some 1400, Some 1500, Some 1600, Some 1700, Some 1800]
   \<and> column ex_clean ''c'' =
       [Some 100, Some 200, Some 640, Some 300, Some 400, Some 500, Some 600,
        Some 660, Some 700, Some 800, Some 900, Some 1000, Some 1100, Some 1200,
        Some 1300, Some 1400, Some 1500, Some 1600, Some 1700, Some 1800]"
  by (simp add: swap_impute)
     (simp add: index_def column_def swap_df_def ex_clean_def ex_df_def ex_rows_def mk_row_def)

text \<open>
  Claim C1 as amended: for every input dataset and MissingSet, after a full imputation run
  that returns a frame, with estimators that never predict NaN (the neighbor models of
  scikit-learn average or vote over the finite training targets), no column of the
  MissingSet has a missing value in any row; the column names and dtypes are those of the
  input; every column outside the MissingSet keeps the value of every labelled row; and the
  rows of the result are in increasing order of index label. So when the labels increase
  along the rows of the input (the index pandas assigns on reading the listings, which the
  row filters of the notebook keep) the index and every column outside the MissingSet are
  unchanged, position for position.
\<close>

theorem impute_fills_and_preserves:
  assumes run: "impute L g df missing_columns = Inr (listings_clean, g')"
    and est: "\<forall>k X y Q ps. KNN L k X y Q = Inr ps \<longrightarrow> None \<notin> set ps"
             "\<forall>k X y Q ps. KNNc L k X y Q = Inr ps \<longrightarrow> None \<notin> set ps"
  shows "(\<forall>c \<in> set missing_columns. None \<notin> set (column listings_clean c))
       \<and> columns listings_clean = columns df \<and> dtypes listings_clean = dtypes df
       \<and> (\<forall>c. c \<notin> set missing_columns \<longrightarrow>
              mset (zip (index listings_clean) (column listings_clean c))
                = mset (zip (index df) (column df c)))
       \<and> mset (index listings_clean) = mset (index df)
       \<and> sorted (index listings_clean)
       \<and> (sorted_wrt (<) (index df) \<longrightarrow>
              index listings_clean = index df
            \<and> (\<forall>c. c \<notin> set missing_columns \<longrightarrow> column listings_clean c = column df c))"
proof -
  from impute_run [OF run] obtain df_final where
    kf: "KNN_fill L g df missing_columns = Inr (df_final, g')"
    and rd: "rounder missing_columns df_final = Inr listings_clean" by blast
  note R = rounder_props [OF rd]
  from KNN_fill_run [OF kf] have cols: "columns df_final = columns df"
    and dts: "dtypes df_final = dtypes df" by blast+
  have "\<forall>c \<in> set missing_columns. None \<notin> set (column listings_clean c)"
    using R KNN_fill_no_nan(1) [OF kf est] by blast
  moreover have "columns listings_clean = columns df" using R cols by simp
  moreover have "dtypes listings_clean = dtypes df" using R dts by simp
  moreover have "\<forall>c. c \<notin> set missing_columns \<longrightarrow>
              mset (zip (index listings_clean) (column listings_clean c))
                = mset (zip (index df) (column df c))"
    using R KNN_fill_multiset(2) [OF kf] by simp
  moreover have "mset (index listings_clean) = mset (index df)"
    using R KNN_fill_multiset(1) [OF kf] by simp
  moreover have "sorted (index listings_clean)"
    using R KNN_fill_sorted [OF kf] by simp
  moreover have "index listings_clean = index df
            \<and> (\<forall>c. c \<notin> set missing_columns \<longrightarrow> column listings_clean c = column df c)"
    if srt: "sorted_wrt (<) (index df)"
    using R KNN_fill_shape [OF kf srt] by simp
  ultimately show ?thesis by blast
qed

text \<open>
  The run on \<open>ex_df\<close> with MissingSet \<open>[a, b]\<close> returns \<open>ex_clean\<close>: columns \<open>a\<close> and \<open>b\<close> are
  complete and column \<open>c\<close> is the input's.
\<close>

theorem impute_fills_and_preserves_witness:
  "impute ex_lib [] ex_df [''a'', ''b''] = Inr (ex_clean, [])
   \<and> sorted_wrt (<) (index ex_df)
   \<and> None \<notin> set (column ex_clean ''a'') \<and> None \<notin> set (column ex_clean ''b'')
   \<and> column ex_clean ''c'' = column ex_df ''c''
   \<and> index ex_clean = index ex_df \<and> columns ex_clean = columns ex_df
   \<and> dtypes ex_clean = dtypes ex_df"
  using impute_fills_and_preserves [OF ex_impute ex_lib_predictions] ex_impute ex_sorted
  by simp

subsection \<open>C2: the neighbor count is averaged over the positions of all columns so far\<close>

text \<open>
  Claim C2 says that the neighbor count of a column is the truncated mean of the ten grid
  positions of that column's own repetitions. The code creates \<open>best_ks\<close> once, before the
  loop over the columns, and never empties it, so from the second column on the mean runs
  over the positions of the earlier columns too. On \<open>ex_df\<close> column \<open>a\<close> records ten times
  position 4 and column \<open>b\<close> ten times position 1: the selector returns neighbor count 2 for
  \<open>b\<close>, where the mean of the ten positions of \<open>b\<close> is 1, the count the same selector returns
  when it starts from an empty list.
\<close>

theorem select_k_mixes_earlier_columns:
  "column_loop ex_lib ex_df (filled_subset ex_df) (test_index (filled_subset ex_df))
       [''a'', ''b''] [''a''] (missing_subset ex_df, [], [])
     = Inr (ex_missing_a, replicate 10 4, [])
   \<and> select_k ex_lib ex_df (filled_subset ex_df) (test_index (filled_subset ex_df)) ''b''
       (replicate 10 4, [])
     = Inr (2, replicate 10 4 @ replicate 10 1, [])
   \<and> select_k ex_lib ex_df (filled_subset ex_df) (test_index (filled_subset ex_df)) ''b'' ([], [])
     = Inr (1, replicate 10 1, [])
   \<and> int_mean (replicate 10 1) = Inr 1"
  by (simp add: ex_filled_eq ex_missing_eq ex_test_index ex_column_loop_a ex_select_k_b
        ex_select_k_b_alone int_mean_def sum_list_replicate
        del: column_loop.simps replicate.simps)

subsection \<open>C3: every candidate draws its own permutation\<close>

text \<open>
  Claim C3 says that a repetition draws one permutation and scores every candidate of the
  grid on that one split. In the code the shuffle is inside the loop over the candidates:
  a repetition draws seven permutations, one per candidate (\<open>repetition_draws\<close>, for every
  library). So the recorded position depends on the draws after the first: on two tapes
  with the same first draw, one repetition on \<open>ex_df\<close> for target \<open>a\<close> records position 4
  when the six later draws repeat the first, and position 3 when every second draw reverses
  the rows; both tapes of seven draws are used up.
\<close>

theorem repetition_draws_per_candidate:
  "hd tape_same = hd tape_alternating
   \<and> repetition ex_lib ex_df (filled_subset ex_df) (test_index (filled_subset ex_df)) ''a''
       ([], tape_same) = Inr ([4], [])
   \<and> repetition ex_lib ex_df (filled_subset ex_df) (test_index (filled_subset ex_df)) ''a''
       ([], tape_alternating) = Inr ([3], [])"
proof -
  have "hd tape_same = hd tape_alternating"
    by (simp add: tape_same_def tape_alternating_def)
  then show ?thesis
    by (simp add: ex_filled_eq ex_test_index ex_repetition_same ex_repetition_alternating)
qed

subsection \<open>C4: the selector records grid positions and the final model gets their mean\<close>



subsection \<open>C5: the imputer overwrites the whole target column of the missing subset\<close>

text \<open>
  Claim C5 says that predictions of a target column are written only into the rows where it
  is missing, so that an observed value of the target in a row of the missing subset
  survives. The code assigns the predictions to the whole column. On \<open>ex_df\<close> the row with
  index 7 is in the missing subset because \<open>b\<close> is missing there; its observed \<open>a = 5\<close> is
  \<open>1 / 4\<close> in the result of \<^verbatim>\<open>KNN_fill\<close>.
\<close>

theorem observed_target_overwritten:
  "index (missing_subset ex_df) = [2, 7]
   \<and> column (missing_subset ex_df) ''a'' = [None, Some 5]
   \<and> KNN_fill ex_lib [] ex_df [''a'', ''b''] = Inr (ex_final, [])
   \<and> index ex_final ! 7 = 7 \<and> column ex_df ''a'' ! 7 = Some 5
   \<and> column ex_final ''a'' ! 7 = Some (1 / 4)"
  by (simp add: ex_missing_eq ex_columns_missing ex_KNN_fill)
     (simp add: index_def column_def ex_final_def ex_df_def ex_rows_def mk_row_def)

text \<open>
  Claim C5 as amended: for every target column the imputer writes a predicted value into
  every row of the missing subset, whether the target was missing or observed in that row
  (one prediction per row, from the final model); the index and the other columns of the
  missing subset stay as they are.
\<close>

theorem KNN_predict_overwrites_column:
  assumes "KNN_predict L df_missing df_temp df_filled t k = Inr df_predict"
  shows "\<exists>predicted.
           (if dtypes df_filled t = Float64 then KNN L else KNNc L) k
              (drop_column df_filled t) (column df_filled t) (drop_column df_temp t) = Inr predicted
           \<and> column df_predict t = predicted
           \<and> length predicted = length (rows df_missing)
           \<and> index df_predict = index df_missing
           \<and> (\<forall>c. c \<noteq> t \<longrightarrow> column df_predict c = column df_missing c)"
proof -
  from KNN_predict_props(3) [OF assms] obtain predicted
    where p: "(if dtypes df_filled t = Float64 then KNN L else KNNc L) k
              (drop_column df_filled t) (column df_filled t) (drop_column df_temp t) = Inr predicted"
      and s: "set_column df_missing t predicted = Inr df_predict"
    by blast
  show ?thesis
    using p set_column_props [OF s] by auto
qed

text \<open>The final prediction of column \<open>a\<close> on \<open>ex_df\<close>: both rows get \<open>1 / 4\<close>.\<close>

theorem KNN_predict_overwrites_column_witness:
  "KNN_predict ex_lib ex_missing ex_temp_a ex_filled ''a'' 4 = Inr ex_missing_a
   \<and> column ex_missing ''a'' = [None, Some 5]
   \<and> column ex_missing_a ''a'' = [Some (1 / 4), Some (1 / 4)]
   \<and> index ex_missing_a = index ex_missing
   \<and> column ex_missing_a ''b'' = column ex_missing ''b''
   \<and> column ex_missing_a ''c'' = column ex_missing ''c''"
proof -
  have h: "KNN_predict ex_lib ex_missing ex_temp_a ex_filled ''a'' 4 = Inr ex_missing_a"
    using ex_predict_a by (simp add: ex_temp_a_def ex_missing_a_def)
  from KNN_predict_overwrites_column [OF h]
  have "index ex_missing_a = index ex_missing"
    and "column ex_missing_a ''b'' = column ex_missing ''b''"
    and "column ex_missing_a ''c'' = column ex_missing ''c''"
    by auto
  with h show ?thesis by (simp add: ex_columns_missing ex_columns_missing_a)
qed

subsection \<open>C6: the partition is exact; the merge puts the rows in label order\<close>

text \<open>
  Claim C6 says that for every input dataset the fully-observed subset and the missing
  subset are disjoint, the union of their index labels is the index of the input, and the
  result of \<^verbatim>\<open>KNN_fill\<close> has the row count and the row order of the input. The merge sorts
  the rows by index label, so the order of the result is the order of the labels, not the
  order of the input. On \<open>swap_df\<close> with MissingSet \<open>[a, b]\<close> the rows labelled 7 and 2 come
  back as 2 and 7; on \<open>rev_df\<close>, with nothing to impute, the rows come back reversed.
\<close>

theorem KNN_fill_orders_by_label:
  "KNN_fill ex_lib [] swap_df [''a'', ''b''] = Inr (ex_final, [])
   \<and> index swap_df = [0, 1, 7, 3, 4, 5, 6, 2, 8, 9, 10, 11, 12, 13, 14, 15, 16, 17, 18, 19]
   \<and> index ex_final = [0, 1, 2, 3, 4, 5, 6, 7, 8, 9, 10, 11, 12, 13, 14, 15, 16, 17, 18, 19]
   \<and> KNN_fill ex_lib [] rev_df [] = Inr (ex_df, [])
   \<and> index rev_df = [19, 18, 17, 16, 15, 14, 13, 12, 11, 10, 9, 8, 7, 6, 5, 4, 3, 2, 1, 0]
   \<and> index ex_df = [0, 1, 2, 3, 4, 5, 6, 7, 8, 9, 10, 11, 12, 13, 14, 15, 16, 17, 18, 19]"
  by (simp add: swap_KNN_fill rev_KNN_fill)
     (simp add: index_def swap_df_def rev_df_def ex_final_def ex_df_def ex_rows_def)

text \<open>
  Claim C6 as amended: for every input dataset and every run of \<^verbatim>\<open>KNN_fill\<close> that returns a
  frame, the two subsets take every row of the input exactly once (the labels of the two
  subsets together are the labels of the input, as sets and as multisets), and the result
  has the labels of the input, each as often as the input, so the same row count, in
  increasing order of label. When the labels increase along the rows of the input, the two
  subsets have no label in common and the result has the rows in the order of the input.
\<close>

theorem partition_and_merge:
  assumes run: "KNN_fill L g df missing_columns = Inr (df_final, g')"
  shows "set (index (filled_subset df)) \<union> set (index (missing_subset df)) = set (index df)
       \<and> mset (index (filled_subset df)) + mset (index (missing_subset df)) = mset (index df)
       \<and> length (rows df_final) = length (rows df)
       \<and> mset (index df_final) = mset (index df)
       \<and> sorted (index df_final)
       \<and> (sorted_wrt (<) (index df) \<longrightarrow>
              set (index (filled_subset df)) \<inter> set (index (missing_subset df)) = {}
            \<and> index df_final = index df)"
proof -
  have u: "set (index (filled_subset df)) \<union> set (index (missing_subset df)) = set (index df)"
    by (auto simp: index_def filled_subset_def missing_subset_def)
  have m: "mset (index (filled_subset df)) + mset (index (missing_subset df)) = mset (index df)"
    unfolding index_def rows_filled_subset rows_missing_subset
    by (rule mset_map_partition)
  have i: "mset (index df_final) = mset (index df)" by (rule KNN_fill_multiset(1) [OF run])
  then have l: "length (rows df_final) = length (rows df)"
    unfolding index_def by (metis length_map size_mset)
  have "set (index (filled_subset df)) \<inter> set (index (missing_subset df)) = {}
            \<and> index df_final = index df"
    if srt: "sorted_wrt (<) (index df)"
  proof
    from srt have "distinct (map fst (rows df))" by (simp add: index_def strict_sorted_iff)
    then have inj: "inj_on fst (set (rows df))" by (simp add: distinct_map)
    then show "set (index (filled_subset df)) \<inter> set (index (missing_subset df)) = {}"
      by (auto simp: index_def filled_subset_def missing_subset_def dest: inj_onD)
    show "index df_final = index df" by (rule KNN_fill_shape(1) [OF run srt])
  qed
  with u m i l KNN_fill_sorted [OF run] show ?thesis by blast
qed

text \<open>
  On \<open>ex_df\<close>: eighteen fully-observed rows, the rows 2 and 7 in the missing subset, and
  twenty rows in the order of the input in the result.
\<close>

theorem partition_and_merge_witness:
  "KNN_fill ex_lib [] ex_df [''a'', ''b''] = Inr (ex_final, [])
   \<and> sorted_wrt (<) (index ex_df)
   \<and> index (missing_subset ex_df) = [2, 7]
   \<and> set (index (filled_subset ex_df)) \<inter> set (index (missing_subset ex_df)) = {}
   \<and> set (index (filled_subset ex_df)) \<union> set (index (missing_subset ex_df)) = set (index ex_df)
   \<and> length (rows ex_final) = length (rows ex_df)
   \<and> index ex_final = index ex_df"
  using partition_and_merge [OF ex_KNN_fill] ex_KNN_fill ex_sorted
  by (simp add: ex_missing_eq ex_columns_missing)

subsection \<open>C7: placeholder filling\<close>

text \<open>
  Claim C7. For a target column \<open>t\<close> the placeholder filling returns a copy of the
  missing-row subset in which every column of the MissingSet other than \<open>t\<close> has its missing
  entries replaced by the median of that column over the missing-row subset itself, and
  column \<open>t\<close> is as before, missing entries included. The columns outside the MissingSet and
  the index are as before too. The filling returns whenever every column of the MissingSet
  other than \<open>t\<close> is a column of the subset.
\<close>

theorem placeholder_fill_median:
  assumes "set missing_columns - {t} \<subseteq> set (columns df_missing)"
  shows "\<exists>temp_df. placeholder_fill missing_columns t df_missing = Inr temp_df
           \<and> index temp_df = index df_missing
           \<and> column temp_df t = column df_missing t
           \<and> (\<forall>c \<in> set missing_columns - {t}.
                 column temp_df c =
                   fillna_values (median (column df_missing c)) (column df_missing c))
           \<and> (\<forall>c. c \<notin> set missing_columns \<longrightarrow> column temp_df c = column df_missing c)"
proof -
  from placeholder_fill_total [OF assms] obtain temp_df
    where run: "placeholder_fill missing_columns t df_missing = Inr temp_df" by blast
  show ?thesis
    using run placeholder_fill_columns [OF run] by (auto simp: placeholder_fill_column [OF run])
qed

text \<open>
  On the missing subset of \<open>ex_df\<close>, target \<open>a\<close>: the missing \<open>b\<close> of row 7 becomes 3, the
  median of \<open>b\<close> over the two rows of the missing subset (over the fully-observed rows it
  is 1); column \<open>a\<close> keeps its missing entry.
\<close>

theorem placeholder_fill_median_witness:
  "set [''a'', ''b''] - {''a''} \<subseteq> set (columns ex_missing)
   \<and> placeholder_fill [''a'', ''b''] ''a'' ex_missing = Inr ex_temp_a
   \<and> column ex_missing ''b'' = [Some 3, None]
   \<and> median (column ex_missing ''b'') = Some 3
   \<and> median (column ex_filled ''b'') = Some 1
   \<and> column ex_temp_a ''b'' = [Some 3, Some 3]
   \<and> column ex_temp_a ''a'' = [None, Some 5]
   \<and> column ex_temp_a ''c'' = column ex_missing ''c''"
proof -
  have h: "set [''a'', ''b''] - {''a''} \<subseteq> set (columns ex_missing)"
    by (simp add: ex_missing_def)
  have e: "placeholder_fill [''a'', ''b''] ''a'' ex_missing = Inr ex_temp_a"
    using ex_placeholder_a by (simp add: ex_temp_a_def)
  from placeholder_fill_median [OF h] e
  have "column ex_temp_a ''a'' = column ex_missing ''a''"
    and "column ex_temp_a ''b'' = fillna_values (median (column ex_missing ''b'')) (column ex_missing ''b'')"
    and "column ex_temp_a ''c'' = column ex_missing ''c''"
    by auto
  moreover have "median (column ex_missing ''b'') = Some 3"
    by (simp add: ex_columns_missing median_def)
  moreover have "median (column ex_filled ''b'') = Some 1"
    by (simp add: column_def ex_filled_def mk_row_def median_def)
  ultimately show ?thesis
    using h e by (simp add: ex_columns_missing fillna_values_def)
qed

subsection \<open>C8: the partition looks at every column\<close>

text \<open>
  Claim C8 says that a row is in the missing subset exactly when a column of the MissingSet
  is missing in it, and that a row whose only missing values are outside the MissingSet is
  in the fully-observed subset. The partition of the code does not look at the MissingSet:
  it tests every column of the frame. The one row of \<open>outside_df\<close> has \<open>a\<close> and \<open>b\<close>, the
  MissingSet, observed and only \<open>c\<close> missing; it is in the missing subset and the
  fully-observed subset is empty.
\<close>

theorem partition_outside_missing_set:
  "column outside_df ''a'' = [Some 1] \<and> column outside_df ''b'' = [Some 2]
   \<and> column outside_df ''c'' = [None]
   \<and> index (missing_subset outside_df) = [0] \<and> index (filled_subset outside_df) = []"
  by (simp add: column_def index_def missing_subset_def filled_subset_def select_rows_def
        isnull_any_def outside_df_def mk_row_def)

text \<open>
  Claim C8 as amended: a row is in the missing subset exactly when some column of the
  dataset, in the MissingSet or not, is missing in it, and in the fully-observed subset
  exactly when no column is missing in it. When the MissingSet names columns of the dataset
  and every missing value of the dataset lies in one of them, a row is in the missing subset
  exactly when a column of the MissingSet is missing in it.
\<close>

theorem partition_any_column:
  "((i, r) \<in> set (rows (missing_subset df))
      \<longleftrightarrow> (i, r) \<in> set (rows df) \<and> (\<exists>c \<in> set (columns df). r c = None))
   \<and> ((i, r) \<in> set (rows (filled_subset df))
      \<longleftrightarrow> (i, r) \<in> set (rows df) \<and> (\<forall>c \<in> set (columns df). r c \<noteq> None))
   \<and> (set missing_columns \<subseteq> set (columns df)
        \<and> (\<forall>j q c. (j, q) \<in> set (rows df) \<and> c \<in> set (columns df) \<and> q c = None
               \<longrightarrow> c \<in> set missing_columns)
      \<longrightarrow> ((i, r) \<in> set (rows (missing_subset df))
            \<longleftrightarrow> (i, r) \<in> set (rows df) \<and> (\<exists>c \<in> set missing_columns. r c = None)))"
proof -
  have m: "(i, r) \<in> set (rows (missing_subset df))
             \<longleftrightarrow> (i, r) \<in> set (rows df) \<and> (\<exists>c \<in> set (columns df). r c = None)"
    by (simp add: rows_missing_subset isnull_any_def list_ex_iff)
  have f: "(i, r) \<in> set (rows (filled_subset df))
             \<longleftrightarrow> (i, r) \<in> set (rows df) \<and> (\<forall>c \<in> set (columns df). r c \<noteq> None)"
    by (simp add: rows_filled_subset isnull_any_def list_ex_iff)
  have "(i, r) \<in> set (rows (missing_subset df))
          \<longleftrightarrow> (i, r) \<in> set (rows df) \<and> (\<exists>c \<in> set missing_columns. r c = None)"
    if sub: "set missing_columns \<subseteq> set (columns df)"
      and cov: "\<forall>j q c. (j, q) \<in> set (rows df) \<and> c \<in> set (columns df) \<and> q c = None
                  \<longrightarrow> c \<in> set missing_columns"
  proof
    assume "(i, r) \<in> set (rows (missing_subset df))"
    with m obtain c where "(i, r) \<in> set (rows df)" "c \<in> set (columns df)" "r c = None"
      by blast
    with cov show "(i, r) \<in> set (rows df) \<and> (\<exists>c \<in> set missing_columns. r c = None)"
      by blast
  next
    assume "(i, r) \<in> set (rows df) \<and> (\<exists>c \<in> set missing_columns. r c = None)"
    with sub m show "(i, r) \<in> set (rows (missing_subset df))" by blast
  qed
  with m f show ?thesis by blast
qed

text \<open>
  On \<open>ex_df\<close> every missing value is in \<open>a\<close> or \<open>b\<close>; row 2, where \<open>a\<close> is missing, is in the
  missing subset and not in the fully-observed subset.
\<close>

theorem partition_any_column_witness:
  "set [''a'', ''b''] \<subseteq> set (columns ex_df)
   \<and> (2, mk_row None (Some 3) (Some 640)) \<in> set (rows ex_df)
   \<and> mk_row None (Some 3) (Some 640) ''a'' = None
   \<and> (2, mk_row None (Some 3) (Some 640)) \<in> set (rows (missing_subset ex_df))
   \<and> (2, mk_row None (Some 3) (Some 640)) \<notin> set (rows (filled_subset ex_df))"
proof -
  have s: "set [''a'', ''b''] \<subseteq> set (columns ex_df)" by (simp add: ex_df_def)
  have m: "\<forall>j q c. (j, q) \<in> set (rows ex_df) \<and> c \<in> set (columns ex_df) \<and> q c = None
             \<longrightarrow> c \<in> set [''a'', ''b'']"
    by (auto simp: ex_df_def ex_rows_def mk_row_def split: if_splits)
  have r: "(2, mk_row None (Some 3) (Some 640)) \<in> set (rows ex_df)"
    by (simp add: ex_df_def ex_rows_def)
  have n: "mk_row None (Some 3) (Some 640) ''a'' = None" by (simp add: mk_row_def)
  from partition_any_column [of 2 "mk_row None (Some 3) (Some 640)" ex_df "[''a'', ''b'']"] s m r n
  have "(2, mk_row None (Some 3) (Some 640)) \<in> set (rows (missing_subset ex_df))"
    and "(2, mk_row None (Some 3) (Some 640)) \<notin> set (rows (filled_subset ex_df))"
    by auto
  with s r n show ?thesis by simp
qed

subsection \<open>C9: the same seed gives the same choice\<close>

text \<open>
  Claim C9 compares two executions that draw from the global generator of numpy after it has
  been seeded. Here the state of the generator is an argument of every function of the
  selector, so "the same seed and the same inputs give the same neighbor count and the same
  predictions" is an instance of the reflexivity of equality and tells nothing about the
  code. The claim is not stated. What the selector takes from the generator is in
  \<open>candidates_draws\<close> and \<open>repetition_draws\<close>: seven draws per repetition.
\<close>

subsection \<open>C10: the neighbor count of a final model is between 1 and 7\<close>

text \<open>
  Claim C10. Whatever columns the loop has processed before, the neighbor count the
  selector returns for the next column, which is the one the final model of that column is
  fitted with, is between 1 and 7: every entry of \<open>best_ks\<close> is a position plus one in a grid
  of seven candidates, and the truncated mean of such entries stays in the range. So 9, 11
  and 13 are never the neighbor count of a final model.
\<close>

theorem best_k_in_range:
  assumes "column_loop L df df_filled test_ind mc pre (df_missing0, [], g0) = Inr (df_missing, best_ks, g)"
    and "select_k L df df_filled test_ind t (best_ks, g) = Inr (best_k, best_ks', g')"
  shows "1 \<le> best_k \<and> best_k \<le> 7 \<and> best_k \<notin> {9, 11, 13} \<and> (\<forall>v \<in> set best_ks'. 1 \<le> v \<and> v \<le> 7)"
proof -
  from column_loop_best_ks [OF assms(1)] have inv: "\<forall>v \<in> set best_ks. 1 \<le> v \<and> v \<le> 7" by simp
  from select_k_positions [OF assms(2)] obtain own where
    own: "best_ks' = best_ks @ own" "length own = 10" "\<forall>v \<in> set own. 1 \<le> v \<and> v \<le> 7"
    and k: "best_k = sum_list best_ks' div length best_ks'" by blast
  from own inv have inv': "\<forall>v \<in> set best_ks'. 1 \<le> v \<and> v \<le> 7" by auto
  from own have ne: "best_ks' \<noteq> []" by auto
  from int_mean_bounds [OF ne inv'] k have "1 \<le> best_k \<and> best_k \<le> 7" by simp
  with inv' show ?thesis by auto
qed

text \<open>
  On \<open>ex_df\<close>, after column \<open>a\<close> the selector returns 2 for column \<open>b\<close>; every entry of the
  list is 4 or 1.
\<close>

theorem best_k_in_range_witness:
  "column_loop ex_lib ex_df ex_filled 5 [''a'', ''b''] [''a''] (ex_missing, [], [])
     = Inr (ex_missing_a, replicate 10 4, [])
   \<and> select_k ex_lib ex_df ex_filled 5 ''b'' (replicate 10 4, [])
     = Inr (2, replicate 10 4 @ replicate 10 1, [])
   \<and> (1 :: nat) \<le> 2 \<and> (2 :: nat) \<le> 7 \<and> (2 :: nat) \<notin> {9, 11, 13}
   \<and> set (replicate 10 4 @ replicate 10 1) = {1, 4 :: nat}"
  using best_k_in_range [OF ex_column_loop_a ex_select_k_b] ex_column_loop_a ex_select_k_b
  by (auto simp del: replicate.simps column_loop.simps)

end
